theory Spec2Isabelle
  imports Complex_Main "HOL-Library.AList" "HOL-Library.Extended_Nat"
begin

section \<open>Data model (src/types/dag.ts)\<close>

text \<open>
  A TypeScript \<open>number\<close> is modelled as a HOL \<open>real\<close> where it carries a coordinate, as
  a \<open>nat\<close> where it carries a length or an index, and as an \<open>enat\<close> where it carries an
  identity counter (see below). A \<open>string\<close> is a HOL
  \<open>string\<close>. Field names carry the name of their interface as a prefix, since a HOL
  record field is a global constant (\<open>id\<close>, \<open>x\<close> and \<open>y\<close> would clash).
\<close>

record Position =
  pos_x :: real
  pos_y :: real

record DAGNode =
  node_id :: string
  node_label :: string
  node_position :: Position
  node_selected :: bool

record DAGEdge =
  edge_id :: string
  edge_source :: string
  edge_target :: string
  edge_selected :: bool

record ValidationResult =
  isValid :: bool
  errors :: "string list"

record EdgeValidationResult =
  ev_isValid :: bool
  errorMessage :: "string option"

section \<open>Identity assignment: template literals and the identity pattern\<close>

text \<open>
  Both registries name a new element \<open>`edge-${counter}`\<close> or \<open>`node-${counter}`\<close> and
  recover the counter at mount time with \<open>id.match(/edge-(\d+)/)\<close> and \<open>parseInt\<close>. The
  counter is a JavaScript \<open>number\<close>, a double. It starts at 1 and only ever holds the
  result of \<open>parseInt\<close> on digits, of \<open>Math.max\<close> and of \<open>+ 1\<close>, so its values are
  non-negative integers that a double represents, or \<open>Infinity\<close>: an \<open>enat\<close>, with \<open>\<infinity>\<close>
  for \<open>Infinity\<close>. Every operation computes on the exact integers and rounds the result
  to a double.

  \<open>show_nat\<close> is the decimal rendering of an exact integer.
\<close>

definition digit_char :: "nat \<Rightarrow> char" where
  "digit_char d = char_of (48 + d)"

function show_nat :: "nat \<Rightarrow> string" where
  "show_nat n = (if n < 10 then [digit_char n] else show_nat (n div 10) @ [digit_char (n mod 10)])"
  by pat_completeness auto
termination
  by (relation "measure (\<lambda>n. n)") auto

declare show_nat.simps [simp del]

text \<open>
  Rounding an exact non-negative integer to a double (round to nearest, ties to even). A
  double has 53 significant bits: below \<open>2^53\<close> every integer is a double; from there on
  \<open>ulp_exp n\<close> is the number of low bits that are dropped, \<open>q\<close> the 53 bits that are
  kept and \<open>r\<close> the dropped part, which rounds \<open>q\<close> up when it is more than half a unit,
  or exactly half with \<open>q\<close> odd. A result of \<open>2^1024\<close> or more is beyond the largest
  double and is \<open>Infinity\<close>.
\<close>

function ulp_exp :: "nat \<Rightarrow> nat" where
  "ulp_exp n = (if n < 2 ^ 53 then 0 else Suc (ulp_exp (n div 2)))"
  by pat_completeness auto
termination
  by (relation "measure (\<lambda>n. n)") auto

declare ulp_exp.simps [simp del]

definition round_to_double :: "nat \<Rightarrow> enat" where
  "round_to_double n =
     (let e = ulp_exp n;
          q = n div 2 ^ e;
          r = n mod 2 ^ e;
          rounded = (if 2 * r > 2 ^ e \<or> (2 * r = 2 ^ e \<and> odd q) then (q + 1) * 2 ^ e
                     else q * 2 ^ e)
      in if rounded < 2 ^ 1024 then enat rounded else \<infinity>)"

text \<open>\<open>counter + 1\<close> and \<open>counter++\<close>: the exact successor, rounded; \<open>Infinity + 1\<close> is
  \<open>Infinity\<close>.\<close>

definition js_succ :: "enat \<Rightarrow> enat" where
  "js_succ c = (case c of enat n \<Rightarrow> round_to_double (n + 1) | \<infinity> \<Rightarrow> \<infinity>)"

text \<open>
  \<open>`${counter}`\<close> is \<open>Number::toString\<close>. It prints \<open>s \<times> 10^(n - k)\<close> for the shortest
  digit string \<open>s\<close> (of \<open>k\<close> digits) that rounds back to the double \<open>x\<close>, the closest to
  \<open>x\<close> among those of that length: the digits of \<open>s\<close> followed by \<open>n - k\<close> zeros when
  \<open>n \<le> 21\<close>, the exponent form \<open>d.ddde+N\<close> beyond. \<open>shortest_candidates x k\<close> are the
  \<open>(n, s)\<close> of \<open>k\<close> digits that round to \<open>x\<close>, among the two multiples of \<open>10^(n - k)\<close>
  around \<open>x\<close>; seventeen digits always suffice, so the \<open>None\<close> of \<open>shortest_digits\<close> is
  never met. Up to \<open>2^53\<close> the neighbouring doubles of an integer are at most 1 away, so
  no shorter digit string rounds to it and the digits printed are its own.
\<close>

definition shortest_candidates :: "nat \<Rightarrow> nat \<Rightarrow> (nat \<times> nat) list" where
  "shortest_candidates x k =
     concat (map (\<lambda>n.
       filter (\<lambda>(n, s). 10 ^ (k - 1) \<le> s \<and> s < 10 ^ k
                          \<and> round_to_double (s * 10 ^ (n - k)) = enat x)
         [(n, x div 10 ^ (n - k)), (n, x div 10 ^ (n - k) + 1)])
       [length (show_nat x), length (show_nat x) + 1])"

definition closer :: "nat \<Rightarrow> nat \<Rightarrow> nat \<times> nat \<Rightarrow> nat \<times> nat \<Rightarrow> nat \<times> nat" where
  "closer x k a b =
     (let da = \<bar>int (snd a * 10 ^ (fst a - k)) - int x\<bar>;
          db = \<bar>int (snd b * 10 ^ (fst b - k)) - int x\<bar>
      in if db < da \<or> (db = da \<and> even (snd b) \<and> odd (snd a)) then b else a)"

definition shortest_digits :: "nat \<Rightarrow> (nat \<times> nat \<times> nat) option" where
  "shortest_digits x =
     (case find (\<lambda>k. shortest_candidates x k \<noteq> []) [1..<18] of
        None \<Rightarrow> None
      | Some k \<Rightarrow>
          (case shortest_candidates x k of
             [] \<Rightarrow> None
           | c # cs \<Rightarrow> (case fold (\<lambda>b a. closer x k a b) cs c of (n, s) \<Rightarrow> Some (k, n, s))))"

definition number_to_string :: "enat \<Rightarrow> string" where
  "number_to_string c =
     (case c of
        \<infinity> \<Rightarrow> ''Infinity''
      | enat x \<Rightarrow>
          if x \<le> 2 ^ 53 then show_nat x
          else
            (case shortest_digits x of
               None \<Rightarrow> show_nat x
             | Some (k, n, s) \<Rightarrow>
                 if n \<le> 21 then show_nat s @ replicate (n - k) (CHR ''0'')
                 else (if k = 1 then show_nat s
                       else hd (show_nat s) # CHR ''.'' # tl (show_nat s))
                      @ ''e+'' @ show_nat (n - 1)))"

text \<open>\<open>\d\<close> without the unicode flag: the ten ASCII digits.\<close>

definition is_digit :: "char \<Rightarrow> bool" where
  "is_digit c = (48 \<le> (of_char c :: nat) \<and> (of_char c :: nat) \<le> 57)"

definition digit_val :: "char \<Rightarrow> nat" where
  "digit_val c = of_char c - 48"

text \<open>
  \<open>parseInt(ds, 10)\<close> on a capture of \<open>\d+\<close>, which holds digits only: the integer the
  digits denote, rounded to a double. (The standard lets an implementation read the
  digits after the twentieth as zeros; the engines round the exact value, and the two
  agree on every string of at most twenty digits.)
\<close>

definition digits_value :: "string \<Rightarrow> nat" where
  "digits_value ds = foldl (\<lambda>n c. 10 * n + digit_val c) 0 ds"

definition parseInt :: "string \<Rightarrow> enat" where
  "parseInt ds = round_to_double (digits_value ds)"

text \<open>
  \<open>s.match(/PRE(\d+)/)\<close> for a literal prefix \<open>PRE\<close>: the leftmost position where the
  prefix is followed by a digit; the group captures the longest run of digits there
  (\<open>+\<close> is greedy). \<open>None\<close> is the \<open>null\<close> of no match.
\<close>

definition match_here :: "string \<Rightarrow> string \<Rightarrow> string option" where
  "match_here pre s =
     (let ds = takeWhile is_digit (drop (length pre) s)
      in if take (length pre) s = pre \<and> ds \<noteq> [] then Some ds else None)"

fun match_digits :: "string \<Rightarrow> string \<Rightarrow> string option" where
  "match_digits pre [] = match_here pre []"
| "match_digits pre (c # cs) =
     (case match_here pre (c # cs) of Some ds \<Rightarrow> Some ds | None \<Rightarrow> match_digits pre cs)"

text \<open>The numeric suffix of an identity, as the mount effect reads it.\<close>

definition id_suffix :: "string \<Rightarrow> string \<Rightarrow> enat option" where
  "id_suffix pre i = map_option parseInt (match_digits pre i)"

section \<open>Edge admission policy and edge registry (src/hooks/useEdgeManagement.ts)\<close>

text \<open>
  \<open>validateEdge\<close> closes over the hook's current \<open>edges\<close> and \<open>nodes\<close>; the model takes
  them as its first two arguments. The four rules are tried in the order of the source
  and the first one that fails returns.
\<close>

definition validateEdge ::
  "DAGEdge list \<Rightarrow> DAGNode list \<Rightarrow> string \<Rightarrow> string \<Rightarrow> EdgeValidationResult" where
  "validateEdge edges nodes sourceId targetId =
    (if sourceId = targetId then
       \<lparr>ev_isValid = False, errorMessage = Some ''Self-connections are not allowed''\<rparr>
     else if list_ex (\<lambda>edge. edge_source edge = sourceId \<and> edge_target edge = targetId) edges then
       \<lparr>ev_isValid = False, errorMessage = Some ''Edge already exists between these nodes''\<rparr>
     else if \<not> list_ex (\<lambda>node. node_id node = sourceId) nodes
           \<or> \<not> list_ex (\<lambda>node. node_id node = targetId) nodes then
       \<lparr>ev_isValid = False, errorMessage = Some ''Source or target node does not exist''\<rparr>
     else if list_ex (\<lambda>edge. edge_source edge = targetId \<and> edge_target edge = sourceId) edges then
       \<lparr>ev_isValid = False, errorMessage = Some ''This connection would create a direct cycle''\<rparr>
     else \<lparr>ev_isValid = True, errorMessage = None\<rparr>)"

text \<open>
  The registry's state: the \<open>edges\<close> of \<open>useState\<close> and the \<open>edgeIdCounter\<close> ref.
  \<open>useEdgeManagement\<close> is the state at the first render, \<open>edge_store_mount\<close> the mount
  effect: \<open>reduce\<close> with \<open>Math.max\<close> over the suffixes of the initial edges, from 0, then
  \<open>maxId + 1\<close>.
\<close>

record EdgeStore =
  es_edges :: "DAGEdge list"
  edgeIdCounter :: enat

definition useEdgeManagement :: "DAGEdge list \<Rightarrow> EdgeStore" where
  "useEdgeManagement initialEdges = \<lparr>es_edges = initialEdges, edgeIdCounter = 1\<rparr>"

definition edge_store_mount :: "EdgeStore \<Rightarrow> EdgeStore" where
  "edge_store_mount s =
     (let maxId = foldl (\<lambda>mx edge.
                    case match_digits ''edge-'' (edge_id edge) of
                      Some ds \<Rightarrow> max mx (parseInt ds)
                    | None \<Rightarrow> mx) 0 (es_edges s)
      in s\<lparr>edgeIdCounter := js_succ maxId\<rparr>)"

text \<open>
  \<open>addEdge\<close> returns its boolean and the next state. The \<open>alert\<close> of a rejection is a
  display effect outside the state and is left out.

  A callback belongs to the render that created it: its \<open>validateEdge\<close> reads the
  \<open>edges\<close> and \<open>nodes\<close> of that render, while \<open>setEdges(prev => [...prev, newEdge])\<close>
  appends to the list the state holds when the update is applied, and the counter is a
  ref that all renders share. \<open>addEdge_from_render\<close> takes the \<open>edges\<close> of the render as
  its first argument, so that two calls from one render validate against the same list.
  \<open>addEdge\<close> is the call from the render of the current state.
\<close>

definition addEdge_from_render ::
  "DAGEdge list \<Rightarrow> EdgeStore \<Rightarrow> DAGNode list \<Rightarrow> string \<Rightarrow> string \<Rightarrow> bool \<times> EdgeStore" where
  "addEdge_from_render rendered s nodes sourceId targetId =
     (let validation = validateEdge rendered nodes sourceId targetId
      in if \<not> ev_isValid validation then (False, s)
         else
           (let newEdge = \<lparr>edge_id = ''edge-'' @ number_to_string (edgeIdCounter s),
                            edge_source = sourceId, edge_target = targetId,
                            edge_selected = False\<rparr>
            in (True, s\<lparr>es_edges := es_edges s @ [newEdge],
                         edgeIdCounter := js_succ (edgeIdCounter s)\<rparr>)))"

definition addEdge :: "EdgeStore \<Rightarrow> DAGNode list \<Rightarrow> string \<Rightarrow> string \<Rightarrow> bool \<times> EdgeStore" where
  "addEdge s nodes sourceId targetId = addEdge_from_render (es_edges s) s nodes sourceId targetId"

definition removeEdge :: "EdgeStore \<Rightarrow> string \<Rightarrow> EdgeStore" where
  "removeEdge s edgeId = s\<lparr>es_edges := filter (\<lambda>edge. edge_id edge \<noteq> edgeId) (es_edges s)\<rparr>"

definition removeEdges :: "EdgeStore \<Rightarrow> string list \<Rightarrow> EdgeStore" where
  "removeEdges s edgeIds =
     s\<lparr>es_edges := filter (\<lambda>edge. \<not> List.member edgeIds (edge_id edge)) (es_edges s)\<rparr>"

definition removeEdgesForNode :: "EdgeStore \<Rightarrow> string \<Rightarrow> EdgeStore" where
  "removeEdgesForNode s nodeId =
     s\<lparr>es_edges := filter (\<lambda>edge. edge_source edge \<noteq> nodeId \<and> edge_target edge \<noteq> nodeId)
                      (es_edges s)\<rparr>"

definition removeEdgesForNodes :: "EdgeStore \<Rightarrow> string list \<Rightarrow> EdgeStore" where
  "removeEdgesForNodes s nodeIds =
     s\<lparr>es_edges := filter (\<lambda>edge. \<not> List.member nodeIds (edge_source edge)
                                  \<and> \<not> List.member nodeIds (edge_target edge))
                      (es_edges s)\<rparr>"

definition clearEdges :: "EdgeStore \<Rightarrow> EdgeStore" where
  "clearEdges s = s\<lparr>es_edges := [], edgeIdCounter := 1\<rparr>"

text \<open>
  The states the registry reaches: mounted on any initial edges, then driven through its
  operations. Each call of \<open>addEdge\<close> sees the edges and the node set of its render,
  which may be any earlier ones. The raw \<open>setEdges\<close> that the hook also hands out replaces
  the list without assigning an identity and is no operation of this relation.
\<close>

inductive edge_store_reachable :: "EdgeStore \<Rightarrow> bool" where
  reach_mount: "edge_store_reachable (edge_store_mount (useEdgeManagement initialEdges))"
| reach_addEdge: "edge_store_reachable s \<Longrightarrow>
     edge_store_reachable (snd (addEdge_from_render rendered s nodes sourceId targetId))"
| reach_removeEdge: "edge_store_reachable s \<Longrightarrow> edge_store_reachable (removeEdge s edgeId)"
| reach_removeEdges: "edge_store_reachable s \<Longrightarrow> edge_store_reachable (removeEdges s edgeIds)"
| reach_removeEdgesForNode: "edge_store_reachable s \<Longrightarrow> edge_store_reachable (removeEdgesForNode s nodeId)"
| reach_removeEdgesForNodes: "edge_store_reachable s \<Longrightarrow> edge_store_reachable (removeEdgesForNodes s nodeIds)"
| reach_clearEdges: "edge_store_reachable s \<Longrightarrow> edge_store_reachable (clearEdges s)"

section \<open>Node registry (src/hooks/useNodeManagement.ts)\<close>

text \<open>
  The registry's state: the \<open>nodes\<close> of \<open>useState\<close> and the \<open>nodeIdCounter\<close> ref, with the
  same mount effect as the edge registry.
\<close>

record NodeStore =
  ns_nodes :: "DAGNode list"
  nodeIdCounter :: enat

definition useNodeManagement :: "DAGNode list \<Rightarrow> NodeStore" where
  "useNodeManagement initialNodes = \<lparr>ns_nodes = initialNodes, nodeIdCounter = 1\<rparr>"

definition node_store_mount :: "NodeStore \<Rightarrow> NodeStore" where
  "node_store_mount s =
     (let maxId = foldl (\<lambda>mx node.
                    case match_digits ''node-'' (node_id node) of
                      Some ds \<Rightarrow> max mx (parseInt ds)
                    | None \<Rightarrow> mx) 0 (ns_nodes s)
      in s\<lparr>nodeIdCounter := js_succ maxId\<rparr>)"

text \<open>
  \<open>String.prototype.trim\<close> strips white space and line terminators from both ends. A HOL
  \<open>char\<close> is a code unit below 256; the ones that \<open>trim\<close> strips there are tab, line feed,
  vertical tab, form feed, carriage return, space and the no-break space (160).
\<close>

definition is_space :: "char \<Rightarrow> bool" where
  "is_space c = ((of_char c :: nat) \<in> {9, 10, 11, 12, 13, 32, 160})"

definition trim :: "string \<Rightarrow> string" where
  "trim s = rev (dropWhile is_space (rev (dropWhile is_space s)))"

text \<open>
  \<open>addNode(label?, position?)\<close>. An absent or empty \<open>label\<close> falls to \<open>prompt\<close>, whose
  answer is the argument \<open>prompted\<close> (\<open>None\<close> when the dialog is cancelled); the two
  draws of \<open>Math.random\<close> for a default position are the argument \<open>rnd\<close>. The \<open>throw\<close>
  is \<open>Inl\<close> of its message and happens before the counter moves.
\<close>

definition addNode ::
  "NodeStore \<Rightarrow> string option \<Rightarrow> string option \<Rightarrow> Position option \<Rightarrow> real \<times> real
     \<Rightarrow> string + (DAGNode \<times> NodeStore)" where
  "addNode s label prompted position rnd =
     (let nodeName = (case label of Some l \<Rightarrow> (if l \<noteq> [] then Some l else prompted)
                                 | None \<Rightarrow> prompted)
      in case nodeName of
           None \<Rightarrow> Inl ''Node name is required''
         | Some name \<Rightarrow>
             if name = [] \<or> trim name = [] then Inl ''Node name is required''
             else
               (let defaultPosition = (case position of
                        Some p \<Rightarrow> p
                      | None \<Rightarrow> \<lparr>pos_x = fst rnd * 400 + 100, pos_y = snd rnd * 300 + 100\<rparr>);
                    newNode = \<lparr>node_id = ''node-'' @ number_to_string (nodeIdCounter s),
                               node_label = trim name,
                               node_position = defaultPosition,
                               node_selected = False\<rparr>
                in Inr (newNode, s\<lparr>ns_nodes := ns_nodes s @ [newNode],
                                   nodeIdCounter := js_succ (nodeIdCounter s)\<rparr>)))"

definition removeNode :: "NodeStore \<Rightarrow> string \<Rightarrow> NodeStore" where
  "removeNode s nodeId = s\<lparr>ns_nodes := filter (\<lambda>node. node_id node \<noteq> nodeId) (ns_nodes s)\<rparr>"

definition removeNodes :: "NodeStore \<Rightarrow> string list \<Rightarrow> NodeStore" where
  "removeNodes s nodeIds =
     s\<lparr>ns_nodes := filter (\<lambda>node. \<not> List.member nodeIds (node_id node)) (ns_nodes s)\<rparr>"

definition updateNodePosition :: "NodeStore \<Rightarrow> string \<Rightarrow> Position \<Rightarrow> NodeStore" where
  "updateNodePosition s nodeId position =
     s\<lparr>ns_nodes := map (\<lambda>node. if node_id node = nodeId then node\<lparr>node_position := position\<rparr>
                                else node) (ns_nodes s)\<rparr>"

definition updateNodeLabel :: "NodeStore \<Rightarrow> string \<Rightarrow> string \<Rightarrow> NodeStore" where
  "updateNodeLabel s nodeId label =
     (if trim label = [] then s
      else s\<lparr>ns_nodes := map (\<lambda>node. if node_id node = nodeId then node\<lparr>node_label := trim label\<rparr>
                                     else node) (ns_nodes s)\<rparr>)"

definition clearNodes :: "NodeStore \<Rightarrow> NodeStore" where
  "clearNodes s = s\<lparr>ns_nodes := [], nodeIdCounter := 1\<rparr>"

text \<open>
  A sequence of registry operations, run from left to right. A failed \<open>addNode\<close> (its
  \<open>throw\<close>) leaves the registry as it was.
\<close>

datatype NodeOp =
    AddNode "string option" "string option" "Position option" "real \<times> real"
  | RemoveNode string
  | RemoveNodes "string list"
  | UpdateNodePosition string Position
  | UpdateNodeLabel string string
  | ClearNodes

fun node_step :: "NodeStore \<Rightarrow> NodeOp \<Rightarrow> NodeStore" where
  "node_step s (AddNode label prompted position rnd) =
     (case addNode s label prompted position rnd of Inl err \<Rightarrow> s | Inr (newNode, s') \<Rightarrow> s')"
| "node_step s (RemoveNode nodeId) = removeNode s nodeId"
| "node_step s (RemoveNodes nodeIds) = removeNodes s nodeIds"
| "node_step s (UpdateNodePosition nodeId position) = updateNodePosition s nodeId position"
| "node_step s (UpdateNodeLabel nodeId label) = updateNodeLabel s nodeId label"
| "node_step s ClearNodes = clearNodes s"

section \<open>Graph validator (src/hooks/useDAGValidation.ts)\<close>

text \<open>
  \<open>detectCycle\<close> keeps its adjacency in a \<open>Map\<close> from an identity to the array of its
  successors, modelled as an association list in insertion order (\<open>AList.update\<close>
  overwrites in place or appends, as \<open>Map.set\<close> does). \<open>graph.get(k) || []\<close> is
  \<open>graph_get\<close>. The sets \<open>visited\<close> and \<open>recursionStack\<close> are only added to, removed
  from and asked for membership, so they are HOL sets.
\<close>

type_synonym graph = "(string \<times> string list) list"

definition graph_get :: "graph \<Rightarrow> string \<Rightarrow> string list" where
  "graph_get g k = (case map_of g k of Some neighbors \<Rightarrow> neighbors | None \<Rightarrow> [])"

definition build_graph :: "DAGNode list \<Rightarrow> DAGEdge list \<Rightarrow> graph" where
  "build_graph nodes edges =
     (let g0 = fold (\<lambda>node g. AList.update (node_id node) [] g) nodes []
      in fold (\<lambda>edge g. AList.update (edge_source edge)
                           (graph_get g (edge_source edge) @ [edge_target edge]) g) edges g0)"

text \<open>
  The inner function \<open>dfs\<close> and its loop over the neighbours. Both return the answer
  with the two sets as they leave them; on the answer \<open>true\<close> the source returns at once
  and leaves the stack as it is.
\<close>

function dfs :: "graph \<Rightarrow> string \<Rightarrow> string set \<times> string set \<Rightarrow> bool \<times> string set \<times> string set"
  and dfs_neighbors ::
    "graph \<Rightarrow> string list \<Rightarrow> string set \<times> string set \<Rightarrow> bool \<times> string set \<times> string set"
where
  "dfs g nodeId (visited, recursionStack) =
     (if nodeId \<in> recursionStack then (True, visited, recursionStack)
      else if nodeId \<in> visited then (False, visited, recursionStack)
      else (case dfs_neighbors g (graph_get g nodeId)
                   (insert nodeId visited, insert nodeId recursionStack) of
              (found, visited', recursionStack') \<Rightarrow>
                if found then (True, visited', recursionStack')
                else (False, visited', recursionStack' - {nodeId})))"
| "dfs_neighbors g [] st = (False, st)"
| "dfs_neighbors g (neighbor # rest) st =
     (case dfs g neighbor st of
        (found, st') \<Rightarrow> if found then (True, st') else dfs_neighbors g rest st')"
  by pat_completeness auto

text \<open>Termination: every call that goes on marks a key of the map that was unmarked.\<close>

definition graph_keys :: "graph \<Rightarrow> string set" where
  "graph_keys g = set (map fst g)"

definition dfs_measure ::
  "graph \<times> string \<times> string set \<times> string set + graph \<times> string list \<times> string set \<times> string set
     \<Rightarrow> nat \<times> nat \<times> nat" where
  "dfs_measure a = (case a of
      Inl (g, v, visited, stk) \<Rightarrow>
        (card (graph_keys g - visited), if v \<in> graph_keys g then 0 else 1, 0)
    | Inr (g, ns, visited, stk) \<Rightarrow>
        (card (graph_keys g - visited), if set ns \<subseteq> graph_keys g then 0 else 2, Suc (length ns)))"

lemma graph_get_outside: "v \<notin> graph_keys g \<Longrightarrow> graph_get g v = []"
  by (auto simp: graph_get_def graph_keys_def map_of_eq_None_iff[symmetric]
           simp del: map_of_eq_None_iff split: option.splits)

lemma dfs_visited_mono:
  "dfs_dfs_neighbors_dom (Inl (g, v, st)) \<Longrightarrow> fst st \<subseteq> fst (snd (dfs g v st))"
  "dfs_dfs_neighbors_dom (Inr (g, ns, st)) \<Longrightarrow> fst st \<subseteq> fst (snd (dfs_neighbors g ns st))"
proof (induction g v st and g ns st rule: dfs_dfs_neighbors.pinduct)
  case (1 g nodeId visited recursionStack)
  then show ?case
    by (auto simp: dfs.psimps split: prod.splits if_splits)
next
  case (2 g st)
  then show ?case by (simp add: dfs_neighbors.psimps)
next
  case (3 g neighbor rest st)
  obtain found st' where r: "dfs g neighbor st = (found, st')"
    by (cases "dfs g neighbor st")
  have m1: "fst st \<subseteq> fst st'" using 3(2) r by simp
  show ?case
  proof (cases found)
    case True
    then show ?thesis using 3(1) r m1 by (simp add: dfs_neighbors.psimps)
  next
    case False
    have "fst st' \<subseteq> fst (snd (dfs_neighbors g rest st'))"
      using 3(3)[OF r[symmetric] False] .
    then show ?thesis using 3(1) r m1 False by (auto simp: dfs_neighbors.psimps)
  qed
qed

termination dfs
proof (relation "inv_image (less_than <*lex*> less_than <*lex*> less_than) dfs_measure", goal_cases)
  case 1
  then show ?case by auto
next
  case (2 g nodeId visited recursionStack)
  show ?case
  proof (cases "nodeId \<in> graph_keys g")
    case True
    have "finite (graph_keys g)" by (simp add: graph_keys_def)
    then have "card (graph_keys g - insert nodeId visited) < card (graph_keys g - visited)"
      using True 2 by (intro psubset_card_mono) auto
    then show ?thesis by (simp add: dfs_measure_def)
  next
    case False
    then show ?thesis by (simp add: dfs_measure_def graph_get_outside)
  qed
next
  case (3 g neighbor rest st)
  then show ?case by (auto simp: dfs_measure_def split: prod.splits)
next
  case (4 g neighbor rest st x y)
  have "dfs_dfs_neighbors_dom (Inl (g, neighbor, st))" using 4 by simp
  from dfs_visited_mono(1)[OF this] have "fst st \<subseteq> fst y" using 4 by (metis snd_conv)
  then have "card (graph_keys g - fst y) \<le> card (graph_keys g - fst st)"
    by (intro card_mono) (auto simp: graph_keys_def)
  then show ?case by (auto simp: dfs_measure_def split: prod.splits)
qed

text \<open>The loop \<open>for (const node of nodes)\<close> that starts a search at every unvisited node.\<close>

fun detect_from :: "graph \<Rightarrow> DAGNode list \<Rightarrow> string set \<times> string set \<Rightarrow> bool" where
  "detect_from g [] st = False"
| "detect_from g (node # rest) st =
     (if node_id node \<notin> fst st then
        (case dfs g (node_id node) st of
           (found, st') \<Rightarrow> if found then True else detect_from g rest st')
      else detect_from g rest st)"

definition detectCycle :: "DAGNode list \<Rightarrow> DAGEdge list \<Rightarrow> bool" where
  "detectCycle nodes edges = detect_from (build_graph nodes edges) nodes ({}, {})"

text \<open>\<open>Array.prototype.join\<close>.\<close>

fun join :: "string \<Rightarrow> string list \<Rightarrow> string" where
  "join sep [] = []"
| "join sep [s] = s"
| "join sep (s # t # ts) = s @ sep @ join sep (t # ts)"

text \<open>
  \<open>useDAGValidation\<close>: the four rules push onto \<open>errors\<close> one after the other; none
  stops the others.
\<close>

definition validate :: "DAGNode list \<Rightarrow> DAGEdge list \<Rightarrow> ValidationResult" where
  "validate nodes edges =
     (let errors1 = (if length nodes < 2 then [''DAG must have at least 2 nodes''] else []);
          errors2 =
            (if length nodes \<ge> 2 then
               (let connectedNodes = fold (\<lambda>edge c. insert (edge_target edge)
                                                    (insert (edge_source edge) c)) edges {};
                    disconnectedNodes = filter (\<lambda>node. node_id node \<notin> connectedNodes) nodes
                in if length disconnectedNodes > 0
                   then errors1 @ [''Disconnected nodes: '' @ join '', '' (map node_label disconnectedNodes)]
                   else errors1)
             else errors1);
          selfLoops = filter (\<lambda>edge. edge_source edge = edge_target edge) edges;
          errors3 = (if length selfLoops > 0 then errors2 @ [''Self-loops are not allowed'']
                     else errors2);
          errors4 =
            (if length nodes > 0 \<and> length edges > 0 then
               (if detectCycle nodes edges then errors3 @ [''Graph contains cycles''] else errors3)
             else errors3)
      in \<lparr>isValid = (length errors4 = 0 \<and> length nodes \<ge> 2), errors = errors4\<rparr>)"

section \<open>Geometry utilities (src/utils/geometryUtils.ts)\<close>

definition NODE_WIDTH :: real where "NODE_WIDTH = 120"
definition NODE_HEIGHT :: real where "NODE_HEIGHT = 60"

record Rect =
  rect_x :: real
  rect_y :: real
  rect_width :: real
  rect_height :: real

definition doRectsOverlap :: "Rect \<Rightarrow> Rect \<Rightarrow> bool" where
  "doRectsOverlap rect1 rect2 =
     (\<not> (rect_x rect1 + rect_width rect1 < rect_x rect2
         \<or> rect_x rect2 + rect_width rect2 < rect_x rect1
         \<or> rect_y rect1 + rect_height rect1 < rect_y rect2
         \<or> rect_y rect2 + rect_height rect2 < rect_y rect1))"






section \<open>Layout engine (src/utils/layoutUtils.ts)\<close>

text \<open>
  Coordinates are reals: the arithmetic of the layouts is modelled exactly, without the
  rounding of IEEE doubles. \<open>Math.round\<close> rounds half up.
\<close>

definition js_round :: "real \<Rightarrow> real" where
  "js_round v = of_int \<lfloor>v + 1 / 2\<rfloor>"

text \<open>\<open>Math.atan2(y, x)\<close>, the angle of the point \<open>(x, y)\<close> in \<open>(-\<pi>, \<pi>]\<close>, \<open>0\<close> at the origin.\<close>

definition js_atan2 :: "real \<Rightarrow> real \<Rightarrow> real" where
  "js_atan2 dy dx =
     (if dx > 0 then arctan (dy / dx)
      else if dx < 0 \<and> dy \<ge> 0 then arctan (dy / dx) + pi
      else if dx < 0 \<and> dy < 0 then arctan (dy / dx) - pi
      else if dy > 0 then pi / 2
      else if dy < 0 then - pi / 2
      else 0)"

datatype Direction = TB | LR | BT | RL

record LayoutOptions =
  lo_direction :: Direction
  lo_nodeWidth :: real
  lo_nodeHeight :: real
  lo_rankSep :: real
  lo_nodeSep :: real

record CanvasSize =
  cs_width :: real
  cs_height :: real

definition DEFAULT_LAYOUT_OPTIONS :: LayoutOptions where
  "DEFAULT_LAYOUT_OPTIONS =
     \<lparr>lo_direction = LR, lo_nodeWidth = NODE_WIDTH, lo_nodeHeight = NODE_HEIGHT,
      lo_rankSep = 180, lo_nodeSep = 100\<rparr>"

text \<open>
  \<open>nodes.map((node, index) => ({...node, position: f(node, index)}))\<close>: every layout
  ends in this shape.
\<close>

definition map_position :: "(DAGNode \<Rightarrow> nat \<Rightarrow> Position) \<Rightarrow> DAGNode list \<Rightarrow> DAGNode list" where
  "map_position f nodes =
     map (\<lambda>(index, node). node\<lparr>node_position := f node index\<rparr>) (List.enumerate 0 nodes)"

subsection \<open>Grid and circle\<close>

text \<open>
  \<open>calculateGridLayout(nodes, columns?, spacing = {x: 200, y: 140})\<close>. The source also
  computes \<open>totalRows\<close>, \<open>gridWidth\<close> and \<open>gridHeight\<close> and never reads them.
\<close>

definition calculateGridLayout ::
  "DAGNode list \<Rightarrow> nat option \<Rightarrow> Position option \<Rightarrow> DAGNode list" where
  "calculateGridLayout nodes columns spacing_opt =
     (if length nodes = 0 then nodes
      else
        (let spacing = (case spacing_opt of Some sp \<Rightarrow> sp | None \<Rightarrow> \<lparr>pos_x = 200, pos_y = 140\<rparr>);
             optimalColumns =
               (case columns of
                  Some c \<Rightarrow> if c \<noteq> 0 then c else nat \<lceil>sqrt (real (length nodes) * 1.2)\<rceil>
                | None \<Rightarrow> nat \<lceil>sqrt (real (length nodes) * 1.2)\<rceil>);
             actualColumns = min optimalColumns (length nodes)
         in map_position (\<lambda>node index.
              \<lparr>pos_x = 100 + real (index mod actualColumns) * pos_x spacing,
               pos_y = 100 + real (index div actualColumns) * pos_y spacing\<rparr>) nodes))"

text \<open>\<open>calculateCircularLayout(nodes, radius?, center = {x: 400, y: 300})\<close>.\<close>

definition calculateCircularLayout ::
  "DAGNode list \<Rightarrow> real option \<Rightarrow> Position option \<Rightarrow> DAGNode list" where
  "calculateCircularLayout nodes radius center_opt =
     (let center = (case center_opt of Some c \<Rightarrow> c | None \<Rightarrow> \<lparr>pos_x = 400, pos_y = 300\<rparr>)
      in if length nodes = 0 then nodes
         else if length nodes = 1 then
           [(nodes ! 0)\<lparr>node_position :=
              \<lparr>pos_x = pos_x center - NODE_WIDTH / 2, pos_y = pos_y center - NODE_HEIGHT / 2\<rparr>\<rparr>]
         else
           (let optimalRadius =
                  (case radius of
                     Some r \<Rightarrow> if r \<noteq> 0 then r else max 150 (real (length nodes) * 25)
                   | None \<Rightarrow> max 150 (real (length nodes) * 25));
                angleStep = (2 * pi) / real (length nodes);
                startAngle = - pi / 2
            in map_position (\<lambda>node index.
                 (let angle = startAngle + real index * angleStep
                  in \<lparr>pos_x = js_round (pos_x center + optimalRadius * cos angle - NODE_WIDTH / 2),
                      pos_y = js_round (pos_y center + optimalRadius * sin angle - NODE_HEIGHT / 2)\<rparr>))
                 nodes))"

subsection \<open>Adjacency of the layouts\<close>

text \<open>
  \<open>incomingEdges\<close> and \<open>outgoingEdges\<close>: one empty array per node identity, then
  \<open>map.get(key)?.push(value)\<close> for every edge, which does nothing for a key that is no
  node.
\<close>

definition push_if_present :: "string \<Rightarrow> string \<Rightarrow> graph \<Rightarrow> graph" where
  "push_if_present k v m =
     (case map_of m k of Some arr \<Rightarrow> AList.update k (arr @ [v]) m | None \<Rightarrow> m)"

definition empty_adjacency :: "DAGNode list \<Rightarrow> graph" where
  "empty_adjacency nodes = fold (\<lambda>node m. AList.update (node_id node) [] m) nodes []"

definition incomingEdges :: "DAGNode list \<Rightarrow> DAGEdge list \<Rightarrow> graph" where
  "incomingEdges nodes edges =
     fold (\<lambda>edge m. push_if_present (edge_target edge) (edge_source edge) m) edges
       (empty_adjacency nodes)"

definition outgoingEdges :: "DAGNode list \<Rightarrow> DAGEdge list \<Rightarrow> graph" where
  "outgoingEdges nodes edges =
     fold (\<lambda>edge m. push_if_present (edge_source edge) (edge_target edge) m) edges
       (empty_adjacency nodes)"

definition rootNodes :: "DAGNode list \<Rightarrow> DAGEdge list \<Rightarrow> DAGNode list" where
  "rootNodes nodes edges =
     filter (\<lambda>node. length (graph_get (incomingEdges nodes edges) (node_id node)) = 0) nodes"

subsection \<open>Hierarchical layout\<close>

text \<open>A \<open>Set\<close> read back with \<open>Array.from\<close>: insertion order, no duplicates.\<close>

definition set_add :: "string \<Rightarrow> string list \<Rightarrow> string list" where
  "set_add v vs = (if v \<in> set vs then vs else vs @ [v])"

text \<open>
  One round of the \<open>while\<close> loop computes \<open>nextLevel\<close> from the current level once the
  current level is marked visited.
\<close>

definition next_level :: "graph \<Rightarrow> graph \<Rightarrow> string set \<Rightarrow> string list \<Rightarrow> string list" where
  "next_level outgoing incoming visited currentLevel =
     fold (\<lambda>nodeId nextLevel.
       fold (\<lambda>childId nextLevel.
         if childId \<notin> visited then
           (if list_all (\<lambda>parentId. parentId \<in> visited) (graph_get incoming childId)
            then set_add childId nextLevel else nextLevel)
         else nextLevel) (graph_get outgoing nodeId) nextLevel) currentLevel []"

definition graph_targets :: "graph \<Rightarrow> string set" where
  "graph_targets g = (\<Union>(k, vs) \<in> set g. set vs)"

text \<open>
  The state of the loop: \<open>levels\<close>, \<open>visited\<close>, \<open>nodeToLevel\<close>. \<open>levelIndex\<close> counts the
  rounds, so \<open>levels[levelIndex] = [...currentLevel]\<close> writes just past the end of
  \<open>levels\<close>: it appends.
\<close>

record LevelState =
  levels :: "string list list"
  visited :: "string set"
  nodeToLevel :: "string \<rightharpoonup> nat"
  levelIndex :: nat

definition mark_level :: "string list \<Rightarrow> LevelState \<Rightarrow> LevelState" where
  "mark_level currentLevel st =
     fold (\<lambda>nodeId st. st\<lparr>visited := insert nodeId (visited st),
                            nodeToLevel := (nodeToLevel st)(nodeId \<mapsto> levelIndex st)\<rparr>)
       currentLevel (st\<lparr>levels := levels st @ [currentLevel]\<rparr>)"

lemma visited_mark_level: "visited (mark_level currentLevel st) = visited st \<union> set currentLevel"
proof -
  have f: "visited (fold (\<lambda>nodeId st. st\<lparr>visited := insert nodeId (visited st),
                            nodeToLevel := (nodeToLevel st)(nodeId \<mapsto> levelIndex st)\<rparr>) cl s)
          = visited s \<union> set cl" for cl s
    by (induction cl arbitrary: s) auto
  show ?thesis unfolding mark_level_def by (simp add: f)
qed

lemma set_add_set: "set (set_add v vs) = insert v (set vs)"
  by (auto simp: set_add_def)

lemma next_level_fresh:
  "set (next_level outgoing incoming vis currentLevel) \<subseteq> graph_targets outgoing - vis"
proof -
  have inner: "set acc \<subseteq> graph_targets outgoing - vis \<Longrightarrow> set cs \<subseteq> graph_targets outgoing \<Longrightarrow>
     set (fold (\<lambda>childId nextLevel.
         if childId \<notin> vis then
           (if list_all (\<lambda>parentId. parentId \<in> vis) (graph_get incoming childId)
            then set_add childId nextLevel else nextLevel)
         else nextLevel) cs acc) \<subseteq> graph_targets outgoing - vis" for cs acc
    by (induction cs arbitrary: acc) (auto simp: set_add_set)
  have tg: "set (graph_get outgoing k) \<subseteq> graph_targets outgoing" for k
    by (auto simp: graph_get_def graph_targets_def split: option.splits dest!: map_of_SomeD[OF sym])
  have outer: "set acc \<subseteq> graph_targets outgoing - vis \<Longrightarrow>
     set (fold (\<lambda>nodeId nextLevel.
       fold (\<lambda>childId nextLevel.
         if childId \<notin> vis then
           (if list_all (\<lambda>parentId. parentId \<in> vis) (graph_get incoming childId)
            then set_add childId nextLevel else nextLevel)
         else nextLevel) (graph_get outgoing nodeId) nextLevel) cl acc)
       \<subseteq> graph_targets outgoing - vis" for cl acc
  proof (induction cl arbitrary: acc)
    case Nil
    then show ?case by simp
  next
    case (Cons c cl)
    show ?case using Cons.IH[OF inner[OF Cons.prems tg]] by simp
  qed
  show ?thesis unfolding next_level_def by (rule outer) simp
qed

function level_loop :: "graph \<Rightarrow> graph \<Rightarrow> string list \<Rightarrow> LevelState \<Rightarrow> LevelState" where
  "level_loop outgoing incoming currentLevel st =
     (if length currentLevel > 0 then
        (let st1 = mark_level currentLevel st;
             nextLevel = next_level outgoing incoming (visited st1) currentLevel
         in level_loop outgoing incoming nextLevel (st1\<lparr>levelIndex := levelIndex st1 + 1\<rparr>))
      else st)"
  by pat_completeness auto
termination
proof (relation "inv_image (less_than <*lex*> less_than)
    (\<lambda>(outgoing, incoming, currentLevel, st).
       (card (graph_targets outgoing - visited st - set currentLevel),
        if currentLevel = [] then 0 else Suc 0))", goal_cases)
  case 1
  show ?case by auto
next
  case (2 outgoing incoming currentLevel st st1 nextLevel)
  have fin: "finite (graph_targets outgoing)" by (auto simp: graph_targets_def)
  have v: "visited st1 = visited st \<union> set currentLevel"
    using 2 by (simp add: visited_mark_level)
  have fresh: "set nextLevel \<subseteq> graph_targets outgoing - visited st1"
    using 2 next_level_fresh by simp
  show ?case
  proof (cases "nextLevel = []")
    case True
    have "graph_targets outgoing - visited st1 - set nextLevel
            = graph_targets outgoing - visited st - set currentLevel"
      using True v by auto
    then show ?thesis using True 2 by simp
  next
    case False
    then obtain c where c: "c \<in> set nextLevel" by (cases nextLevel) auto
    have "graph_targets outgoing - visited st1 - set nextLevel
            \<subset> graph_targets outgoing - visited st - set currentLevel"
      using c fresh v by auto
    then have "card (graph_targets outgoing - visited st1 - set nextLevel)
            < card (graph_targets outgoing - visited st - set currentLevel)"
      using fin by (intro psubset_card_mono) auto
    then show ?thesis by simp
  qed
qed

declare level_loop.simps [simp del]

text \<open>\<open>Array.prototype.indexOf\<close>: the first index, \<open>-1\<close> when absent.\<close>

fun index_from :: "string list \<Rightarrow> string \<Rightarrow> int \<Rightarrow> int" where
  "index_from [] v k = - 1"
| "index_from (u # us) v k = (if u = v then k else index_from us v (k + 1))"

definition indexOf :: "string list \<Rightarrow> string \<Rightarrow> int" where
  "indexOf vs v = index_from vs v 0"

text \<open>
  The levels of a graph with at least one root: the loop from the roots, then the nodes it
  never reached as one more level.
\<close>

definition hierarchical_levels :: "DAGNode list \<Rightarrow> DAGEdge list \<Rightarrow> LevelState" where
  "hierarchical_levels nodes edges =
     (let st = level_loop (outgoingEdges nodes edges) (incomingEdges nodes edges)
                 (map node_id (rootNodes nodes edges))
                 \<lparr>levels = [], visited = {}, nodeToLevel = Map.empty, levelIndex = 0\<rparr>;
          unvisitedNodes = filter (\<lambda>node. node_id node \<notin> visited st) nodes
      in if length unvisitedNodes > 0 then
           fold (\<lambda>node st. st\<lparr>nodeToLevel := (nodeToLevel st)(node_id node \<mapsto> levelIndex st)\<rparr>)
             unvisitedNodes (st\<lparr>levels := levels st @ [map node_id unvisitedNodes]\<rparr>)
         else st)"

definition level_position :: "LevelState \<Rightarrow> real \<Rightarrow> real \<Rightarrow> DAGNode \<Rightarrow> Position" where
  "level_position st levelSpacing nodeSpacing node =
     (let level = (case nodeToLevel st (node_id node) of Some l \<Rightarrow> l | None \<Rightarrow> 0);
          levelNodes = (if level < length (levels st) then levels st ! level else []);
          positionInLevel = indexOf levelNodes (node_id node);
          levelWidth = max ((real (length levelNodes) - 1) * nodeSpacing) 0;
          startX = 200 - levelWidth / 2
      in \<lparr>pos_x = js_round (startX + real_of_int positionInLevel * nodeSpacing),
          pos_y = js_round (real level * levelSpacing + 80)\<rparr>)"

text \<open>\<open>calculateHierarchicalLayout(nodes, edges, levelSpacing = 180, nodeSpacing = 160)\<close>.\<close>

definition calculateHierarchicalLayout ::
  "DAGNode list \<Rightarrow> DAGEdge list \<Rightarrow> real option \<Rightarrow> real option \<Rightarrow> DAGNode list" where
  "calculateHierarchicalLayout nodes edges levelSpacing_opt nodeSpacing_opt =
     (let levelSpacing = (case levelSpacing_opt of Some v \<Rightarrow> v | None \<Rightarrow> 180);
          nodeSpacing = (case nodeSpacing_opt of Some v \<Rightarrow> v | None \<Rightarrow> 160)
      in if length nodes = 0 then nodes
         else if length (rootNodes nodes edges) = 0 then
           calculateGridLayout nodes (Some (nat \<lceil>sqrt (real (length nodes))\<rceil>)) None
         else
           map_position (\<lambda>node index.
             level_position (hierarchical_levels nodes edges) levelSpacing nodeSpacing node) nodes)"

subsection \<open>Tree layout\<close>

datatype TreeDirection = Vertical | Horizontal

text \<open>
  The inner function \<open>calculateSubtreePositions(nodeId, level, siblingIndex,
  siblingsCount)\<close> recurses along the outgoing edges and writes into the \<open>positions\<close>
  map; its fourth argument is never read and is left out. On a graph with a cycle below
  the root the recursion never ends (the call stack overflows), so the model carries the
  depth of call stack it may still use and answers \<open>None\<close> when that is used up.
  \<open>subtree_children\<close> is the \<open>children.forEach\<close> that adds up \<open>totalWidth\<close>.
\<close>

fun calculateSubtreePositions ::
    "nat \<Rightarrow> graph \<Rightarrow> TreeDirection \<Rightarrow> string \<Rightarrow> nat \<Rightarrow> nat \<Rightarrow> (string \<rightharpoonup> Position)
       \<Rightarrow> (nat \<times> (string \<rightharpoonup> Position)) option"
  and subtree_children ::
    "nat \<Rightarrow> graph \<Rightarrow> TreeDirection \<Rightarrow> string list \<Rightarrow> nat \<Rightarrow> nat \<Rightarrow> (string \<rightharpoonup> Position)
       \<Rightarrow> (nat \<times> (string \<rightharpoonup> Position)) option"
where
  "calculateSubtreePositions 0 outgoing direction nodeId level siblingIndex positions = None"
| "calculateSubtreePositions (Suc depth) outgoing direction nodeId level siblingIndex positions =
     (let children = graph_get outgoing nodeId;
          childSpacing = (if direction = Vertical then 160 else 200);
          levelSpacing = (if direction = Vertical then 140 else 180)
      in if length children = 0 then
           (let x = (if direction = Vertical then real siblingIndex * childSpacing + 100
                     else real level * levelSpacing + 100);
                y = (if direction = Vertical then real level * levelSpacing + 80
                     else real siblingIndex * childSpacing + 100)
            in Some (1, positions(nodeId \<mapsto> \<lparr>pos_x = js_round x, pos_y = js_round y\<rparr>)))
         else
           (case subtree_children depth outgoing direction children (level + 1) 0 positions of
              None \<Rightarrow> None
            | Some (totalWidth, positions') \<Rightarrow>
                (case positions' (children ! 0) of
                   None \<Rightarrow> Some (totalWidth, positions')
                 | Some firstChild \<Rightarrow>
                     (case positions' (children ! (length children - 1)) of
                        None \<Rightarrow> Some (totalWidth, positions')
                      | Some lastChild \<Rightarrow>
                          (let centerX = (pos_x firstChild + pos_x lastChild) / 2;
                               centerY = (if direction = Vertical then real level * levelSpacing + 80
                                          else (pos_y firstChild + pos_y lastChild) / 2);
                               x = (if direction = Vertical then centerX
                                    else real level * levelSpacing + 100);
                               y = (if direction = Vertical then centerY else centerX)
                           in Some (totalWidth,
                                positions'(nodeId \<mapsto> \<lparr>pos_x = js_round x, pos_y = js_round y\<rparr>)))))))"
| "subtree_children depth outgoing direction [] level totalWidth positions =
     Some (totalWidth, positions)"
| "subtree_children depth outgoing direction (childId # rest) level totalWidth positions =
     (case calculateSubtreePositions depth outgoing direction childId level totalWidth positions of
        None \<Rightarrow> None
      | Some (width, positions') \<Rightarrow>
          subtree_children depth outgoing direction rest level (totalWidth + width) positions')"

text \<open>\<open>calculateTreeLayout(nodes, edges, direction = "vertical")\<close>, with the call depth.\<close>

definition calculateTreeLayout ::
  "nat \<Rightarrow> DAGNode list \<Rightarrow> DAGEdge list \<Rightarrow> TreeDirection \<Rightarrow> DAGNode list option" where
  "calculateTreeLayout depth nodes edges direction =
     (if length nodes = 0 then Some nodes
      else if length (rootNodes nodes edges) = 0 then
        Some (calculateHierarchicalLayout nodes edges None None)
      else
        (let rootNode = rootNodes nodes edges ! 0
         in case calculateSubtreePositions depth (outgoingEdges nodes edges) direction
                   (node_id rootNode) 0 0 Map.empty of
              None \<Rightarrow> None
            | Some (width, positions) \<Rightarrow>
                Some (map_position (\<lambda>node index.
                        case positions (node_id node) of
                          Some pos \<Rightarrow> pos
                        | None \<Rightarrow> node_position node) nodes)))"

subsection \<open>Force-directed layout\<close>

record Particle =
  p_id :: string
  p_x :: real
  p_y :: real
  p_vx :: real
  p_vy :: real

text \<open>
  The initial particles. A coordinate that is \<open>0\<close> is falsy and is replaced by a random
  one; \<open>rnd k\<close> is the value of the \<open>k\<close>-th call of \<open>Math.random\<close>, and the last argument
  counts the calls made so far.
\<close>

fun init_particles :: "(nat \<Rightarrow> real) \<Rightarrow> CanvasSize \<Rightarrow> DAGNode list \<Rightarrow> nat \<Rightarrow> Particle list" where
  "init_particles rnd canvasSize [] k = []"
| "init_particles rnd canvasSize (node # rest) k =
     (let x = (if pos_x (node_position node) \<noteq> 0 then pos_x (node_position node)
               else cs_width canvasSize / 2 + (rnd k - 0.5) * 200);
          k1 = (if pos_x (node_position node) \<noteq> 0 then k else k + 1);
          y = (if pos_y (node_position node) \<noteq> 0 then pos_y (node_position node)
               else cs_height canvasSize / 2 + (rnd k1 - 0.5) * 200);
          k2 = (if pos_y (node_position node) \<noteq> 0 then k1 else k1 + 1)
      in \<lparr>p_id = node_id node, p_x = x, p_y = y, p_vx = 0, p_vy = 0\<rparr>
           # init_particles rnd canvasSize rest k2)"

text \<open>The pairs \<open>(i, j)\<close> with \<open>i < j < n\<close> in the order of the two nested loops.\<close>

definition index_pairs :: "nat \<Rightarrow> (nat \<times> nat) list" where
  "index_pairs n = concat (map (\<lambda>i. map (\<lambda>j. (i, j)) [i + 1..<n]) [0..<n])"

definition repulse :: "nat \<times> nat \<Rightarrow> Particle list \<Rightarrow> Particle list" where
  "repulse ij positions =
     (let i = fst ij; j = snd ij;
          dx = p_x (positions ! j) - p_x (positions ! i);
          dy = p_y (positions ! j) - p_y (positions ! i);
          distance = (if sqrt (dx * dx + dy * dy) \<noteq> 0 then sqrt (dx * dx + dy * dy) else 1);
          force = 8000 / (distance * distance);
          fx = (dx / distance) * force;
          fy = (dy / distance) * force;
          positions1 = positions[i := (positions ! i)\<lparr>p_vx := p_vx (positions ! i) - fx,
                                                       p_vy := p_vy (positions ! i) - fy\<rparr>]
      in positions1[j := (positions1 ! j)\<lparr>p_vx := p_vx (positions1 ! j) + fx,
                                           p_vy := p_vy (positions1 ! j) + fy\<rparr>])"

text \<open>\<open>positions.find(p => p.id === id)\<close>, as the index of the particle it returns.\<close>

fun find_particle :: "string \<Rightarrow> Particle list \<Rightarrow> nat option" where
  "find_particle i [] = None"
| "find_particle i (p # ps) =
     (if p_id p = i then Some 0 else map_option Suc (find_particle i ps))"

text \<open>
  The source and the target are objects of the array and are updated in place, the target
  after the source; they are the same object for a self-loop.
\<close>

definition attract :: "DAGEdge \<Rightarrow> Particle list \<Rightarrow> Particle list" where
  "attract edge positions =
     (case find_particle (edge_source edge) positions of
        None \<Rightarrow> positions
      | Some s \<Rightarrow>
          (case find_particle (edge_target edge) positions of
             None \<Rightarrow> positions
           | Some t \<Rightarrow>
               (let dx = p_x (positions ! t) - p_x (positions ! s);
                    dy = p_y (positions ! t) - p_y (positions ! s);
                    fx = dx * 0.05;
                    fy = dy * 0.05;
                    positions1 = positions[s := (positions ! s)\<lparr>p_vx := p_vx (positions ! s) + fx,
                                                                 p_vy := p_vy (positions ! s) + fy\<rparr>]
                in positions1[t := (positions1 ! t)\<lparr>p_vx := p_vx (positions1 ! t) - fx,
                                                     p_vy := p_vy (positions1 ! t) - fy\<rparr>])))"

definition force_step :: "DAGEdge list \<Rightarrow> CanvasSize \<Rightarrow> Particle list \<Rightarrow> Particle list" where
  "force_step edges canvasSize positions =
     (let reset = map (\<lambda>p. p\<lparr>p_vx := 0, p_vy := 0\<rparr>) positions;
          repelled = fold repulse (index_pairs (length reset)) reset;
          attracted = fold attract edges repelled;
          centerX = cs_width canvasSize / 2;
          centerY = cs_height canvasSize / 2;
          centered = map (\<lambda>p. p\<lparr>p_vx := p_vx p + (centerX - p_x p) * 0.001,
                                  p_vy := p_vy p + (centerY - p_y p) * 0.001\<rparr>) attracted
      in map (\<lambda>p.
           (let vx = p_vx p * 0.85; vy = p_vy p * 0.85;
                x = p_x p + vx; y = p_y p + vy
            in p\<lparr>p_vx := vx, p_vy := vy,
                 p_x := max 100 (min x (cs_width canvasSize - 100)),
                 p_y := max 100 (min y (cs_height canvasSize - 100))\<rparr>)) centered)"

text \<open>\<open>calculateForceLayout(nodes, edges, iterations, canvasSize)\<close> with its random source.\<close>

definition calculateForceLayout ::
  "(nat \<Rightarrow> real) \<Rightarrow> DAGNode list \<Rightarrow> DAGEdge list \<Rightarrow> nat \<Rightarrow> CanvasSize \<Rightarrow> DAGNode list" where
  "calculateForceLayout rnd nodes edges iterations canvasSize =
     (if length nodes = 0 then nodes
      else
        (let positions = ((force_step edges canvasSize) ^^ iterations)
                           (init_particles rnd canvasSize nodes 0)
         in map_position (\<lambda>node index.
              (let pos = map_option (\<lambda>k. positions ! k) (find_particle (node_id node) positions);
                   x = (case pos of Some p \<Rightarrow> if p_x p \<noteq> 0 then p_x p else pos_x (node_position node)
                                  | None \<Rightarrow> pos_x (node_position node));
                   y = (case pos of Some p \<Rightarrow> if p_y p \<noteq> 0 then p_y p else pos_y (node_position node)
                                  | None \<Rightarrow> pos_y (node_position node))
               in \<lparr>pos_x = js_round x, pos_y = js_round y\<rparr>)) nodes))"

subsection \<open>Layered layout through the external library\<close>

text \<open>
  \<open>applyDagreLayout\<close> hands the graph to the dagre library, which is no code of this
  repository: the argument \<open>dagre\<close> stands for it. It answers the centre it gives every
  identity it knows, or \<open>None\<close> when it throws; the \<open>catch\<close> then falls back to the
  hierarchical layout. \<open>layoutOptions\<close> is the merged option object.
\<close>

definition applyDagreLayout ::
  "(DAGNode list \<Rightarrow> DAGEdge list \<Rightarrow> LayoutOptions \<Rightarrow> (string \<rightharpoonup> Position) option)
     \<Rightarrow> DAGNode list \<Rightarrow> DAGEdge list \<Rightarrow> LayoutOptions \<Rightarrow> DAGNode list" where
  "applyDagreLayout dagre nodes edges layoutOptions =
     (if length nodes = 0 then nodes
      else
        (case dagre nodes edges layoutOptions of
           Some graph_node \<Rightarrow>
             map_position (\<lambda>node index.
               case graph_node (node_id node) of
                 Some graphNode \<Rightarrow>
                   \<lparr>pos_x = js_round (pos_x graphNode - lo_nodeWidth layoutOptions / 2),
                    pos_y = js_round (pos_y graphNode - lo_nodeHeight layoutOptions / 2)\<rparr>
               | None \<Rightarrow> node_position node) nodes
         | None \<Rightarrow>
             calculateHierarchicalLayout nodes edges
               (Some (lo_rankSep layoutOptions)) (Some (lo_nodeSep layoutOptions))))"

subsection \<open>Overlap resolution\<close>

definition separate :: "real \<Rightarrow> nat \<times> nat \<Rightarrow> DAGNode list \<times> bool \<Rightarrow> DAGNode list \<times> bool" where
  "separate minDistance ij st =
     (let resolvedNodes = fst st; i = fst ij; j = snd ij;
          node1 = resolvedNodes ! i;
          node2 = resolvedNodes ! j;
          dx = pos_x (node_position node2) - pos_x (node_position node1);
          dy = pos_y (node_position node2) - pos_y (node_position node1);
          distance = sqrt (dx * dx + dy * dy)
      in if distance < minDistance then
           (let separationDistance = (minDistance - distance) / 2 + 5;
                angle = js_atan2 dy dx;
                separationX = cos angle * separationDistance;
                separationY = sin angle * separationDistance
            in (resolvedNodes
                  [i := node1\<lparr>node_position :=
                          \<lparr>pos_x = js_round (pos_x (node_position node1) - separationX),
                           pos_y = js_round (pos_y (node_position node1) - separationY)\<rparr>\<rparr>,
                   j := node2\<lparr>node_position :=
                          \<lparr>pos_x = js_round (pos_x (node_position node2) + separationX),
                           pos_y = js_round (pos_y (node_position node2) + separationY)\<rparr>\<rparr>],
                True))
         else st)"

function resolve_loop :: "real \<Rightarrow> nat \<Rightarrow> DAGNode list \<Rightarrow> DAGNode list" where
  "resolve_loop minDistance iteration resolvedNodes =
     (if iteration < 15 then
        (case fold (separate minDistance) (index_pairs (length resolvedNodes))
                (resolvedNodes, False) of
           (resolvedNodes', overlapped) \<Rightarrow>
             if \<not> overlapped then resolvedNodes'
             else resolve_loop minDistance (iteration + 1) resolvedNodes')
      else resolvedNodes)"
  by pat_completeness auto
termination
  by (relation "measure (\<lambda>(minDistance, iteration, resolvedNodes). 15 - iteration)") auto

declare resolve_loop.simps [simp del]

text \<open>\<open>resolveNodeOverlaps(nodes, minSpacing = 40)\<close>.\<close>

definition resolveNodeOverlaps :: "DAGNode list \<Rightarrow> real option \<Rightarrow> DAGNode list" where
  "resolveNodeOverlaps nodes minSpacing_opt =
     (let minSpacing = (case minSpacing_opt of Some v \<Rightarrow> v | None \<Rightarrow> 40)
      in if length nodes \<le> 1 then nodes
         else resolve_loop (NODE_WIDTH + minSpacing) 0 nodes)"

subsection \<open>Choice of the layout\<close>

datatype LayoutType = Hierarchical | Dagre | Circular | Grid | Tree | Force

text \<open>
  \<open>incomingCounts\<close> and \<open>outgoingCounts\<close> are \<open>Map\<close>s from an identity to a count. Every
  node identity starts at \<open>0\<close>; an edge adds one at its target (its source), also when
  that identity is no node, which then enters the map. The source computes \<open>leafNodes\<close>
  from \<open>outgoingCounts\<close> and never reads it.
\<close>

definition count_get :: "(string \<times> nat) list \<Rightarrow> string \<Rightarrow> nat" where
  "count_get m k = (case map_of m k of Some c \<Rightarrow> c | None \<Rightarrow> 0)"

definition incomingCounts :: "DAGNode list \<Rightarrow> DAGEdge list \<Rightarrow> (string \<times> nat) list" where
  "incomingCounts nodes edges =
     fold (\<lambda>edge m. AList.update (edge_target edge) (count_get m (edge_target edge) + 1) m) edges
       (fold (\<lambda>node m. AList.update (node_id node) 0 m) nodes [])"

definition getSuggestedLayout :: "DAGNode list \<Rightarrow> DAGEdge list \<Rightarrow> LayoutType" where
  "getSuggestedLayout nodes edges =
     (if length nodes \<le> 1 then Grid
      else if length nodes \<le> 4 then Circular
      else
        (let counts = incomingCounts nodes edges;
             roots = filter (\<lambda>(k, count). count = 0) counts
         in if length roots = 1 \<and> length edges = length nodes - 1 then Tree
            else
              (let treelike = real (length (filter (\<lambda>count. count \<le> 1) (map snd counts)))
                                / real (length nodes)
               in if treelike > 0.8 \<and> length edges > 0 then Hierarchical
                  else
                    (let density = real (length edges)
                                     / ((real (length nodes) * (real (length nodes) - 1)) / 2)
                     in if density > 0.3 then Force
                        else if length edges > 0 \<and> length nodes \<le> 20 then Dagre
                        else if length nodes \<le> 12 then Circular
                        else Grid))))"

text \<open>
  \<open>applyBestLayout(nodes, edges, canvasSize?)\<close>, with what its callees need: the call
  depth for the tree layout, the dagre library and the random source. \<open>None\<close> is the
  stack overflow of the tree layout.
\<close>

definition applyBestLayout ::
  "nat \<Rightarrow> (DAGNode list \<Rightarrow> DAGEdge list \<Rightarrow> LayoutOptions \<Rightarrow> (string \<rightharpoonup> Position) option)
     \<Rightarrow> (nat \<Rightarrow> real) \<Rightarrow> DAGNode list \<Rightarrow> DAGEdge list \<Rightarrow> CanvasSize option
     \<Rightarrow> DAGNode list option" where
  "applyBestLayout depth dagre rnd nodes edges canvasSize =
     (let layoutType = getSuggestedLayout nodes edges;
          defaultCanvasSize = (case canvasSize of Some c \<Rightarrow> c
                               | None \<Rightarrow> \<lparr>cs_width = 800, cs_height = 600\<rparr>);
          layoutedNodes =
            (case layoutType of
               Tree \<Rightarrow> calculateTreeLayout depth nodes edges Vertical
             | Hierarchical \<Rightarrow> Some (calculateHierarchicalLayout nodes edges (Some 180) (Some 160))
             | Dagre \<Rightarrow>
                 Some (applyDagreLayout dagre nodes edges
                         (DEFAULT_LAYOUT_OPTIONS\<lparr>lo_rankSep := 200, lo_nodeSep := 120,
                                                  lo_direction := LR\<rparr>))
             | Force \<Rightarrow> Some (calculateForceLayout rnd nodes edges 150 defaultCanvasSize)
             | Circular \<Rightarrow> Some (calculateCircularLayout nodes None None)
             | Grid \<Rightarrow>
                 (let cols = nat \<lceil>sqrt (real (length nodes) * 1.5)\<rceil>
                  in Some (calculateGridLayout nodes (Some cols)
                             (Some \<lparr>pos_x = 200, pos_y = 150\<rparr>))))
      in map_option (\<lambda>layouted. resolveNodeOverlaps layouted (Some 50)) layoutedNodes)"

section \<open>Vocabulary of the properties\<close>

text \<open>The edges as a relation on identities; the graph is acyclic when this relation is.\<close>

definition edge_rel :: "DAGEdge list \<Rightarrow> (string \<times> string) set" where
  "edge_rel edges = set (map (\<lambda>edge. (edge_source edge, edge_target edge)) edges)"


text \<open>
  The invariant behind identity assignment: while the counter is below \<open>2^53\<close>, where a
  double still counts exactly, every numeric suffix in the registry lies below the
  counter.
\<close>

definition edge_ids_below_counter :: "EdgeStore \<Rightarrow> bool" where
  "edge_ids_below_counter s =
     (edgeIdCounter s < enat (2 ^ 53) \<longrightarrow>
        (\<forall>edge \<in> set (es_edges s). \<forall>k. id_suffix ''edge-'' (edge_id edge) = Some k \<longrightarrow> k < edgeIdCounter s))"

definition node_ids_below_counter :: "NodeStore \<Rightarrow> bool" where
  "node_ids_below_counter s =
     (nodeIdCounter s < enat (2 ^ 53) \<longrightarrow>
        (\<forall>node \<in> set (ns_nodes s). \<forall>k. id_suffix ''node-'' (node_id node) = Some k \<longrightarrow> k < nodeIdCounter s))"

text \<open>
  Running a sequence of node operations, and the identities that were in the registry at
  some moment of the run: over the whole run, and since its last \<open>ClearNodes\<close>.
\<close>

definition run_ops :: "NodeStore \<Rightarrow> NodeOp list \<Rightarrow> NodeStore" where
  "run_ops s ops = foldl node_step s ops"

fun present_ever :: "NodeStore \<Rightarrow> NodeOp list \<Rightarrow> string set" where
  "present_ever s [] = node_id ` set (ns_nodes s)"
| "present_ever s (op # ops) = node_id ` set (ns_nodes s) \<union> present_ever (node_step s op) ops"

fun present_since_clear :: "NodeStore \<Rightarrow> NodeOp list \<Rightarrow> string set" where
  "present_since_clear s [] = node_id ` set (ns_nodes s)"
| "present_since_clear s (op # ops) =
     (if ClearNodes \<in> set (op # ops) then present_since_clear (node_step s op) ops
      else node_id ` set (ns_nodes s) \<union> present_since_clear (node_step s op) ops)"

text \<open>
  A new identity lies above a set of identities when it has a numeric suffix and every
  suffix in the set is strictly smaller.
\<close>

definition suffix_above :: "string \<Rightarrow> string set \<Rightarrow> bool" where
  "suffix_above newId present =
     (case id_suffix ''node-'' newId of
        None \<Rightarrow> False
      | Some c \<Rightarrow> (\<forall>i \<in> present. case id_suffix ''node-'' i of None \<Rightarrow> True | Some k \<Rightarrow> k < c))"

text \<open>
  The state of the hierarchical layout's loop when it stops: the levels it reached from
  the roots and the identities it visited. \<open>level_slot\<close> is the place of an identity in a
  level: the level's number gives \<open>y\<close>, the index in the level \<open>x\<close>, centred on 200.
\<close>

definition reached :: "DAGNode list \<Rightarrow> DAGEdge list \<Rightarrow> LevelState" where
  "reached nodes edges =
     level_loop (outgoingEdges nodes edges) (incomingEdges nodes edges)
       (map node_id (rootNodes nodes edges))
       \<lparr>levels = [], visited = {}, nodeToLevel = Map.empty, levelIndex = 0\<rparr>"

definition level_slot :: "nat \<Rightarrow> string list \<Rightarrow> real \<Rightarrow> real \<Rightarrow> string \<Rightarrow> Position" where
  "level_slot level levelNodes levelSpacing nodeSpacing nodeId =
     \<lparr>pos_x = js_round (200 - max ((real (length levelNodes) - 1) * nodeSpacing) 0 / 2
                          + real_of_int (indexOf levelNodes nodeId) * nodeSpacing),
      pos_y = js_round (real level * levelSpacing + 80)\<rparr>"

definition level_inv :: "LevelState \<Rightarrow> bool" where
  "level_inv st =
     (levelIndex st = length (levels st)
      \<and> dom (nodeToLevel st) = visited st
      \<and> (\<forall>i l. nodeToLevel st i = Some l \<longrightarrow> l < levelIndex st))"

text \<open>The rectangles of a node list, pairwise: no two overlap.\<close>

definition node_rect :: "DAGNode \<Rightarrow> Rect" where
  "node_rect node =
     \<lparr>rect_x = pos_x (node_position node), rect_y = pos_y (node_position node),
      rect_width = NODE_WIDTH, rect_height = NODE_HEIGHT\<rparr>"

fun no_overlaps :: "DAGNode list \<Rightarrow> bool" where
  "no_overlaps [] = True"
| "no_overlaps (node # rest) =
     (list_all (\<lambda>other. \<not> doRectsOverlap (node_rect node) (node_rect other)) rest
      \<and> no_overlaps rest)"

text \<open>What a layout must leave alone in a node: identity, label and selection flag.\<close>

definition node_frame :: "DAGNode \<Rightarrow> string \<times> string \<times> bool" where
  "node_frame node = (node_id node, node_label node, node_selected node)"

text \<open>
  The number of edges into an identity, and a chain of edges read from a node back to
  its ancestors: each element is a child of the next.
\<close>

definition indegree :: "DAGEdge list \<Rightarrow> string \<Rightarrow> nat" where
  "indegree edges k = length (filter (\<lambda>edge. edge_target edge = k) edges)"

fun chain :: "DAGEdge list \<Rightarrow> string list \<Rightarrow> bool" where
  "chain edges [] = True"
| "chain edges [r] = True"
| "chain edges (c # v # path) =
     ((\<exists>edge \<in> set edges. edge_source edge = v \<and> edge_target edge = c) \<and> chain edges (v # path))"

section \<open>Edge admission: the order of the checks\<close>

text \<open>
  C10. When source and target are the same identity, \<open>validateEdge\<close> rejects with the
  self-connection message, whatever the edge set and the node set hold (also when the
  identity is no node at all): the self-connection rule is tried first.
\<close>

theorem validateEdge_self_connection:
  "validateEdge edges nodes i i =
     \<lparr>ev_isValid = False, errorMessage = Some ''Self-connections are not allowed''\<rparr>"
  by (simp add: validateEdge_def)

theorem validateEdge_self_connection_witness:
  "validateEdge [] [] ''node-7'' ''node-7'' =
     \<lparr>ev_isValid = False, errorMessage = Some ''Self-connections are not allowed''\<rparr>"
  by (rule validateEdge_self_connection)

text \<open>
  C4. With an edge from \<open>b\<close> to \<open>a\<close> present, \<open>a\<close> and \<open>b\<close> distinct nodes of the node set
  and no edge from \<open>a\<close> to \<open>b\<close> yet, \<open>validateEdge a b\<close> rejects with the direct-cycle
  reason: the first three rules pass and the fourth fails.
\<close>

theorem validateEdge_direct_cycle:
  assumes "\<exists>e \<in> set edges. edge_source e = b \<and> edge_target e = a"
    and "\<exists>n \<in> set nodes. node_id n = a"
    and "\<exists>n \<in> set nodes. node_id n = b"
    and "a \<noteq> b"
    and "\<not> (\<exists>e \<in> set edges. edge_source e = a \<and> edge_target e = b)"
  shows "validateEdge edges nodes a b =
     \<lparr>ev_isValid = False, errorMessage = Some ''This connection would create a direct cycle''\<rparr>"
  using assms by (simp add: validateEdge_def list_ex_iff)

theorem validateEdge_direct_cycle_witness:
  "validateEdge
     [\<lparr>edge_id = ''edge-1'', edge_source = ''node-2'', edge_target = ''node-1'', edge_selected = False\<rparr>]
     [\<lparr>node_id = ''node-1'', node_label = ''A'', node_position = \<lparr>pos_x = 0, pos_y = 0\<rparr>, node_selected = False\<rparr>,
      \<lparr>node_id = ''node-2'', node_label = ''B'', node_position = \<lparr>pos_x = 200, pos_y = 0\<rparr>, node_selected = False\<rparr>]
     ''node-1'' ''node-2'' =
   \<lparr>ev_isValid = False, errorMessage = Some ''This connection would create a direct cycle''\<rparr>"
  by (rule validateEdge_direct_cycle) simp_all

lemma detectCycle_triangle:
  assumes "a \<noteq> b" "b \<noteq> c" "a \<noteq> c"
  shows "detectCycle
      [\<lparr>node_id = a, node_label = la, node_position = pa, node_selected = sa\<rparr>,
       \<lparr>node_id = b, node_label = lb, node_position = pb, node_selected = sb\<rparr>,
       \<lparr>node_id = c, node_label = lc, node_position = pc, node_selected = sc\<rparr>]
      [\<lparr>edge_id = i1, edge_source = a, edge_target = b, edge_selected = s1\<rparr>,
       \<lparr>edge_id = i2, edge_source = b, edge_target = c, edge_selected = s2\<rparr>,
       \<lparr>edge_id = i3, edge_source = c, edge_target = a, edge_selected = s3\<rparr>]"
proof -
  have ne: "b \<noteq> a" "c \<noteq> b" "c \<noteq> a" using assms by auto
  show ?thesis
    using assms ne by (simp add: detectCycle_def build_graph_def graph_get_def)
qed

text \<open>
  C2. Let \<open>a\<close>, \<open>b\<close>, \<open>c\<close> be three distinct node identities, with exactly the edges from
  \<open>a\<close> to \<open>b\<close> and from \<open>b\<close> to \<open>c\<close>. Then \<open>validateEdge c a\<close> accepts (only the direct
  reverse edge is looked for), \<open>addEdge\<close> adds the edge, and \<open>validate\<close> on the resulting
  edges reports the cycle.
\<close>

theorem validateEdge_admits_longer_cycle:
  assumes "a \<noteq> b" "b \<noteq> c" "a \<noteq> c"
  shows "ev_isValid (validateEdge
      [\<lparr>edge_id = i1, edge_source = a, edge_target = b, edge_selected = s1\<rparr>,
       \<lparr>edge_id = i2, edge_source = b, edge_target = c, edge_selected = s2\<rparr>]
      [\<lparr>node_id = a, node_label = la, node_position = pa, node_selected = sa\<rparr>,
       \<lparr>node_id = b, node_label = lb, node_position = pb, node_selected = sb\<rparr>,
       \<lparr>node_id = c, node_label = lc, node_position = pc, node_selected = sc\<rparr>]
      c a)
   \<and> fst (addEdge
      \<lparr>es_edges =
         [\<lparr>edge_id = i1, edge_source = a, edge_target = b, edge_selected = s1\<rparr>,
          \<lparr>edge_id = i2, edge_source = b, edge_target = c, edge_selected = s2\<rparr>],
       edgeIdCounter = k\<rparr>
      [\<lparr>node_id = a, node_label = la, node_position = pa, node_selected = sa\<rparr>,
       \<lparr>node_id = b, node_label = lb, node_position = pb, node_selected = sb\<rparr>,
       \<lparr>node_id = c, node_label = lc, node_position = pc, node_selected = sc\<rparr>]
      c a)
   \<and> ''Graph contains cycles'' \<in> set (errors (validate
      [\<lparr>node_id = a, node_label = la, node_position = pa, node_selected = sa\<rparr>,
       \<lparr>node_id = b, node_label = lb, node_position = pb, node_selected = sb\<rparr>,
       \<lparr>node_id = c, node_label = lc, node_position = pc, node_selected = sc\<rparr>]
      (es_edges (snd (addEdge
         \<lparr>es_edges =
            [\<lparr>edge_id = i1, edge_source = a, edge_target = b, edge_selected = s1\<rparr>,
             \<lparr>edge_id = i2, edge_source = b, edge_target = c, edge_selected = s2\<rparr>],
          edgeIdCounter = k\<rparr>
         [\<lparr>node_id = a, node_label = la, node_position = pa, node_selected = sa\<rparr>,
          \<lparr>node_id = b, node_label = lb, node_position = pb, node_selected = sb\<rparr>,
          \<lparr>node_id = c, node_label = lc, node_position = pc, node_selected = sc\<rparr>]
         c a)))))"
proof -
  have ne: "b \<noteq> a" "c \<noteq> b" "c \<noteq> a" using assms by auto
  have v: "ev_isValid (validateEdge
      [\<lparr>edge_id = i1, edge_source = a, edge_target = b, edge_selected = s1\<rparr>,
       \<lparr>edge_id = i2, edge_source = b, edge_target = c, edge_selected = s2\<rparr>]
      [\<lparr>node_id = a, node_label = la, node_position = pa, node_selected = sa\<rparr>,
       \<lparr>node_id = b, node_label = lb, node_position = pb, node_selected = sb\<rparr>,
       \<lparr>node_id = c, node_label = lc, node_position = pc, node_selected = sc\<rparr>]
      c a)"
    using assms ne by (simp add: validateEdge_def)
  show ?thesis
    using v assms
    by (simp add: addEdge_def addEdge_from_render_def Let_def validate_def detectCycle_triangle)
qed

theorem validateEdge_admits_longer_cycle_witness:
  "ev_isValid (validateEdge
      [\<lparr>edge_id = ''edge-1'', edge_source = ''A'', edge_target = ''B'', edge_selected = False\<rparr>,
       \<lparr>edge_id = ''edge-2'', edge_source = ''B'', edge_target = ''C'', edge_selected = False\<rparr>]
      [\<lparr>node_id = ''A'', node_label = ''a'', node_position = \<lparr>pos_x = 0, pos_y = 0\<rparr>, node_selected = False\<rparr>,
       \<lparr>node_id = ''B'', node_label = ''b'', node_position = \<lparr>pos_x = 200, pos_y = 0\<rparr>, node_selected = False\<rparr>,
       \<lparr>node_id = ''C'', node_label = ''c'', node_position = \<lparr>pos_x = 400, pos_y = 0\<rparr>, node_selected = False\<rparr>]
      ''C'' ''A'')
   \<and> ''Graph contains cycles'' \<in> set (errors (validate
      [\<lparr>node_id = ''A'', node_label = ''a'', node_position = \<lparr>pos_x = 0, pos_y = 0\<rparr>, node_selected = False\<rparr>,
       \<lparr>node_id = ''B'', node_label = ''b'', node_position = \<lparr>pos_x = 200, pos_y = 0\<rparr>, node_selected = False\<rparr>,
       \<lparr>node_id = ''C'', node_label = ''c'', node_position = \<lparr>pos_x = 400, pos_y = 0\<rparr>, node_selected = False\<rparr>]
      (es_edges (snd (addEdge
         \<lparr>es_edges =
            [\<lparr>edge_id = ''edge-1'', edge_source = ''A'', edge_target = ''B'', edge_selected = False\<rparr>,
             \<lparr>edge_id = ''edge-2'', edge_source = ''B'', edge_target = ''C'', edge_selected = False\<rparr>],
          edgeIdCounter = 3\<rparr>
         [\<lparr>node_id = ''A'', node_label = ''a'', node_position = \<lparr>pos_x = 0, pos_y = 0\<rparr>, node_selected = False\<rparr>,
          \<lparr>node_id = ''B'', node_label = ''b'', node_position = \<lparr>pos_x = 200, pos_y = 0\<rparr>, node_selected = False\<rparr>,
          \<lparr>node_id = ''C'', node_label = ''c'', node_position = \<lparr>pos_x = 400, pos_y = 0\<rparr>, node_selected = False\<rparr>]
         ''C'' ''A'')))))"
  using validateEdge_admits_longer_cycle[of "''A''" "''B''" "''C''" "''edge-1''" False "''edge-2''" False
          "''a''" "\<lparr>pos_x = 0, pos_y = 0\<rparr>" False "''b''" "\<lparr>pos_x = 200, pos_y = 0\<rparr>" False
          "''c''" "\<lparr>pos_x = 400, pos_y = 0\<rparr>" False 3]
  by simp

section \<open>Identity assignment: fresh identities\<close>

lemma is_digit_digit_char: "d < 10 \<Longrightarrow> is_digit (digit_char d)"
  by (simp add: is_digit_def digit_char_def)

lemma digit_val_digit_char: "d < 10 \<Longrightarrow> digit_val (digit_char d) = d"
  by (simp add: digit_val_def digit_char_def)

lemma show_nat_digits: "\<forall>c \<in> set (show_nat n). is_digit c"
proof (induction n rule: show_nat.induct)
  case (1 n)
  show ?case
  proof (cases "n < 10")
    case True
    then show ?thesis by (subst show_nat.simps) (simp add: is_digit_digit_char)
  next
    case False
    then show ?thesis using 1 by (subst show_nat.simps) (simp add: is_digit_digit_char)
  qed
qed

lemma show_nat_nonempty: "show_nat n \<noteq> []"
  by (subst show_nat.simps) simp

lemma digits_value_append: "digits_value (ds @ [c]) = 10 * digits_value ds + digit_val c"
  by (simp add: digits_value_def)

lemma digits_value_show_nat: "digits_value (show_nat n) = n"
proof (induction n rule: show_nat.induct)
  case (1 n)
  show ?case
  proof (cases "n < 10")
    case True
    then show ?thesis by (subst show_nat.simps) (simp add: digits_value_def digit_val_digit_char)
  next
    case False
    then have "digits_value (show_nat n)
                 = 10 * digits_value (show_nat (n div 10)) + digit_val (digit_char (n mod 10))"
      by (subst show_nat.simps) (simp add: digits_value_append)
    then show ?thesis using 1 False by (simp add: digit_val_digit_char)
  qed
qed

text \<open>Below \<open>2^53\<close> rounding is the identity; from \<open>2^53\<close> on its result stays there.\<close>

lemma ulp_exp_small: "n < 2 ^ 53 \<Longrightarrow> ulp_exp n = 0"
  by (subst ulp_exp.simps) simp

lemma round_to_double_exact: "n < 2 ^ 53 \<Longrightarrow> round_to_double n = enat n"
proof -
  assume n: "n < 2 ^ 53"
  have "(2::nat) ^ 53 < 2 ^ 1024" by (rule power_strict_increasing) simp_all
  with n have "n < 2 ^ 1024" by (rule less_trans)
  with n show ?thesis by (simp only: round_to_double_def ulp_exp_small Let_def) simp
qed

lemma ulp_exp_large: "2 ^ 53 \<le> n \<Longrightarrow> 0 < ulp_exp n \<and> 2 ^ 52 \<le> n div 2 ^ ulp_exp n"
proof (induction n rule: ulp_exp.induct)
  case (1 n)
  have u: "ulp_exp n = Suc (ulp_exp (n div 2))"
    using 1(2) by (subst ulp_exp.simps) simp
  show ?case
  proof (cases "n div 2 < 2 ^ 53")
    case True
    then have "ulp_exp (n div 2) = 0" by (rule ulp_exp_small)
    moreover have "2 ^ 52 \<le> n div 2" using 1(2) by simp
    ultimately show ?thesis using u by simp
  next
    case False
    then have big: "2 ^ 53 \<le> n div 2" by simp
    have "\<not> n < 2 ^ 53" using 1(2) by simp
    from 1(1)[OF this big] have "2 ^ 52 \<le> (n div 2) div 2 ^ ulp_exp (n div 2)" by simp
    then show ?thesis using u by (simp add: div_mult2_eq)
  qed
qed

lemma round_to_double_large: "2 ^ 53 \<le> n \<Longrightarrow> enat (2 ^ 53) \<le> round_to_double n"
proof -
  assume n: "2 ^ 53 \<le> n"
  define e where "e = ulp_exp n"
  define q where "q = n div 2 ^ e"
  from ulp_exp_large[OF n] have e: "0 < e" and q: "2 ^ 52 \<le> q" by (simp_all add: e_def q_def)
  have "(2::nat) ^ 1 \<le> 2 ^ e" using e by (intro power_increasing) simp_all
  then have "(2::nat) ^ 52 * 2 ^ 1 \<le> q * 2 ^ e" using q by (intro mult_mono) simp_all
  then have lo: "2 ^ 53 \<le> q * 2 ^ e" by simp
  then have hi: "2 ^ 53 \<le> (q + 1) * 2 ^ e" by (simp add: algebra_simps)
  show ?thesis
    unfolding round_to_double_def Let_def e_def[symmetric] q_def[symmetric]
    using lo hi by (simp del: power_Suc)
qed

lemma round_to_double_below: "round_to_double n < enat (2 ^ 53) \<Longrightarrow> n < 2 ^ 53"
  using round_to_double_large[of n] by (cases "n < 2 ^ 53") auto

lemma js_succ_below:
  "js_succ c < enat (2 ^ 53) \<Longrightarrow> \<exists>n. c = enat n \<and> Suc n < 2 ^ 53 \<and> js_succ c = enat (Suc n)"
proof (cases c)
  case (enat n)
  assume "js_succ c < enat (2 ^ 53)"
  then have "round_to_double (Suc n) < enat (2 ^ 53)" using enat by (simp add: js_succ_def)
  then have "Suc n < 2 ^ 53" by (rule round_to_double_below)
  then show ?thesis using enat by (simp add: js_succ_def round_to_double_exact)
next
  case infinity
  assume "js_succ c < enat (2 ^ 53)"
  then show ?thesis using infinity by (simp add: js_succ_def)
qed

lemma number_to_string_exact: "n \<le> 2 ^ 53 \<Longrightarrow> number_to_string (enat n) = show_nat n"
  by (simp add: number_to_string_def)

text \<open>
  Rounding and rendering beyond \<open>2^53\<close>, on samples: \<open>10^23\<close> is no double and
  \<open>parseInt\<close> reads it as the double next to it, which prints as \<open>1e+23\<close>; \<open>10^20\<close> prints
  with its zeros, \<open>10^21\<close> and \<open>1.2 \<times> 10^21\<close> in exponent form.
\<close>

lemma digit_chars:
  "digit_char 0 = CHR ''0''" "digit_char (Suc 0) = CHR ''1''" "digit_char 2 = CHR ''2''"
  "digit_char 3 = CHR ''3''" "digit_char 4 = CHR ''4''" "digit_char 5 = CHR ''5''"
  "digit_char 6 = CHR ''6''" "digit_char 7 = CHR ''7''" "digit_char 8 = CHR ''8''"
  "digit_char 9 = CHR ''9''"
  by (simp_all add: digit_char_def char_of_def bit_0)

lemma show_nat_small: "n < 10 \<Longrightarrow> show_nat n = [digit_char n]"
  by (subst show_nat.simps) simp

lemma show_nat_numeral:
  "show_nat (numeral k) =
     (if numeral k < (10::nat) then [digit_char (numeral k)]
      else show_nat (numeral k div 10) @ [digit_char (numeral k mod 10)])"
  by (rule show_nat.simps)

lemma ulp_exp_numeral:
  "ulp_exp (numeral k) = (if numeral k < (2::nat) ^ 53 then 0 else Suc (ulp_exp (numeral k div 2)))"
  by (rule ulp_exp.simps)

lemma below_2_1024: "(n::nat) < 2 ^ 80 \<Longrightarrow> n < 2 ^ 1024"
  using power_strict_increasing[of 80 1024 "2::nat"] by simp

lemma round_to_double_1e23:
  "round_to_double 100000000000000000000000 = enat 99999999999999991611392"
  by (simp add: round_to_double_def ulp_exp_numeral below_2_1024)

lemma parseInt_1e23: "parseInt ''100000000000000000000000'' = enat 99999999999999991611392"
  by (simp add: parseInt_def digits_value_def digit_val_def round_to_double_1e23)

lemma show_nat_lengths:
  "length (show_nat 100000000000000000000) = 21"
  "length (show_nat 1000000000000000000000) = 22"
  "length (show_nat 1200000000000000000000) = 22"
  "length (show_nat 99999999999999991611392) = 23"
  by (simp_all add: show_nat_numeral show_nat.simps[of "Suc 0"])

lemma shortest_candidates_samples:
  "shortest_candidates 100000000000000000000 (Suc 0) = [(21, 1)]"
  "shortest_candidates 1000000000000000000000 (Suc 0) = [(22, 1)]"
  "shortest_candidates 1200000000000000000000 (Suc 0) = []"
  "shortest_candidates 1200000000000000000000 2 = [(22, 12)]"
  "shortest_candidates 99999999999999991611392 (Suc 0) = [(24, 1)]"
  by (simp_all add: shortest_candidates_def round_to_double_def ulp_exp_numeral show_nat_lengths
        below_2_1024)

lemma upt_1_18: "[Suc 0..<18] = [1, 2, 3, 4, 5, 6, 7, 8, 9, 10, 11, 12, 13, 14, 15, 16, 17]"
  by code_simp

lemma replicate_20: "replicate 20 (CHR ''0'') = ''00000000000000000000''"
  by (simp add: numeral_eq_Suc)

lemma number_to_string_samples:
  "number_to_string (enat 100000000000000000000) = ''100000000000000000000''"
  "number_to_string (enat 1000000000000000000000) = ''1e+21''"
  "number_to_string (enat 1200000000000000000000) = ''1.2e+21''"
  "number_to_string (enat 99999999999999991611392) = ''1e+23''"
  "number_to_string \<infinity> = ''Infinity''"
  by (simp_all add: number_to_string_def shortest_digits_def upt_1_18 shortest_candidates_samples
        show_nat_numeral show_nat.simps[of "Suc 0"] digit_chars replicate_20)

lemma match_digits_fresh: "match_digits pre (pre @ show_nat n) = Some (show_nat n)"
proof -
  have h: "match_here pre (pre @ show_nat n) = Some (show_nat n)"
    using show_nat_digits[of n] show_nat_nonempty[of n]
    by (simp add: match_here_def takeWhile_eq_all_conv[THEN iffD2])
  show ?thesis
  proof (cases "pre @ show_nat n")
    case Nil
    then show ?thesis using show_nat_nonempty by simp
  next
    case (Cons c cs)
    then show ?thesis using h by simp
  qed
qed

lemma id_suffix_show_nat: "id_suffix pre (pre @ show_nat n) = Some (round_to_double n)"
  by (simp add: id_suffix_def match_digits_fresh parseInt_def digits_value_show_nat)

lemma id_suffix_fresh:
  "n < 2 ^ 53 \<Longrightarrow> id_suffix pre (pre @ number_to_string (enat n)) = Some (enat n)"
  by (simp only: number_to_string_exact[OF less_imp_le] id_suffix_show_nat round_to_double_exact)

lemma foldl_max_suffix:
  "a \<le> foldl (\<lambda>mx x. case match_digits pre (f x) of Some ds \<Rightarrow> max mx (parseInt ds) | None \<Rightarrow> mx) a xs
   \<and> (\<forall>x \<in> set xs. \<forall>k. id_suffix pre (f x) = Some k \<longrightarrow>
         k \<le> foldl (\<lambda>mx x. case match_digits pre (f x) of Some ds \<Rightarrow> max mx (parseInt ds) | None \<Rightarrow> mx) a xs)"
proof (induction xs arbitrary: a)
  case Nil
  show ?case by simp
next
  case (Cons x xs)
  let ?a = "case match_digits pre (f x) of Some ds \<Rightarrow> max a (parseInt ds) | None \<Rightarrow> a"
  have a: "a \<le> ?a" by (simp split: option.splits)
  have x: "\<forall>k. id_suffix pre (f x) = Some k \<longrightarrow> k \<le> ?a"
    by (auto simp: id_suffix_def split: option.splits)
  from Cons[of ?a] a x show ?case by (auto intro: order_trans)
qed

lemma mount_below_counter: "edge_ids_below_counter (edge_store_mount (useEdgeManagement initialEdges))"
proof -
  let ?mx = "foldl (\<lambda>mx edge. case match_digits ''edge-'' (edge_id edge) of
                      Some ds \<Rightarrow> max mx (parseInt ds) | None \<Rightarrow> mx) 0 initialEdges"
  have c: "edgeIdCounter (edge_store_mount (useEdgeManagement initialEdges)) = js_succ ?mx"
    and e: "es_edges (edge_store_mount (useEdgeManagement initialEdges)) = initialEdges"
    by (simp_all add: edge_store_mount_def useEdgeManagement_def Let_def)
  show ?thesis
    unfolding edge_ids_below_counter_def c e
  proof (intro impI ballI allI)
    fix edge k
    assume b: "js_succ ?mx < enat (2 ^ 53)" and m: "edge \<in> set initialEdges"
      and k: "id_suffix ''edge-'' (edge_id edge) = Some k"
    from js_succ_below[OF b] obtain n where n: "?mx = enat n" "js_succ ?mx = enat (Suc n)" by auto
    have "k \<le> ?mx" using foldl_max_suffix[of 0 "''edge-''" edge_id initialEdges] m k by blast
    then have "k < enat (Suc n)" unfolding n(1) by (cases k) simp_all
    then show "k < js_succ ?mx" by (simp only: n(2))
  qed
qed

lemma addEdge_below_counter:
  assumes "edge_ids_below_counter s"
  shows "edge_ids_below_counter (snd (addEdge_from_render rendered s nodes sourceId targetId))"
proof (cases "ev_isValid (validateEdge rendered nodes sourceId targetId)")
  case False
  then show ?thesis using assms by (simp add: addEdge_from_render_def)
next
  case True
  let ?new = "\<lparr>edge_id = ''edge-'' @ number_to_string (edgeIdCounter s), edge_source = sourceId,
               edge_target = targetId, edge_selected = False\<rparr>"
  have s': "snd (addEdge_from_render rendered s nodes sourceId targetId)
              = s\<lparr>es_edges := es_edges s @ [?new], edgeIdCounter := js_succ (edgeIdCounter s)\<rparr>"
    using True by (simp add: addEdge_from_render_def Let_def)
  show ?thesis
    unfolding s' edge_ids_below_counter_def
  proof (intro impI ballI allI)
    fix edge k
    assume b: "edgeIdCounter (s\<lparr>es_edges := es_edges s @ [?new],
                                  edgeIdCounter := js_succ (edgeIdCounter s)\<rparr>) < enat (2 ^ 53)"
      and m: "edge \<in> set (es_edges (s\<lparr>es_edges := es_edges s @ [?new],
                                         edgeIdCounter := js_succ (edgeIdCounter s)\<rparr>))"
      and k: "id_suffix ''edge-'' (edge_id edge) = Some k"
    from b have "js_succ (edgeIdCounter s) < enat (2 ^ 53)" by simp
    from js_succ_below[OF this] obtain n
      where n: "edgeIdCounter s = enat n" "Suc n < 2 ^ 53" "js_succ (edgeIdCounter s) = enat (Suc n)"
      by auto
    have "k \<le> enat n"
    proof (cases "edge = ?new")
      case True
      have "id_suffix ''edge-'' (''edge-'' @ number_to_string (enat n)) = Some (enat n)"
        using n(2) by (intro id_suffix_fresh) simp
      then show ?thesis using k True n(1) by simp
    next
      case False
      then have "edge \<in> set (es_edges s)" using m by simp
      moreover have "edgeIdCounter s < enat (2 ^ 53)" using n by simp
      ultimately have "k < edgeIdCounter s"
        using assms k by (auto simp: edge_ids_below_counter_def)
      then show ?thesis using n(1) by simp
    qed
    then show "k < edgeIdCounter (s\<lparr>es_edges := es_edges s @ [?new],
                                      edgeIdCounter := js_succ (edgeIdCounter s)\<rparr>)"
      using n(3) by (cases k) simp_all
  qed
qed

lemma reachable_below_counter: "edge_store_reachable s \<Longrightarrow> edge_ids_below_counter s"
proof (induction rule: edge_store_reachable.induct)
  case (reach_mount initialEdges)
  show ?case by (rule mount_below_counter)
next
  case (reach_addEdge s rendered nodes sourceId targetId)
  then show ?case by (intro addEdge_below_counter)
next
  case (reach_removeEdge s edgeId)
  then show ?case by (auto simp: edge_ids_below_counter_def removeEdge_def)
next
  case (reach_removeEdges s edgeIds)
  then show ?case by (auto simp: edge_ids_below_counter_def removeEdges_def)
next
  case (reach_removeEdgesForNode s nodeId)
  then show ?case by (auto simp: edge_ids_below_counter_def removeEdgesForNode_def)
next
  case (reach_removeEdgesForNodes s nodeIds)
  then show ?case by (auto simp: edge_ids_below_counter_def removeEdgesForNodes_def)
next
  case (reach_clearEdges s)
  then show ?case by (auto simp: edge_ids_below_counter_def clearEdges_def)
qed

lemma js_succ_exact: "Suc n < 2 ^ 53 \<Longrightarrow> js_succ (enat n) = enat (Suc n)"
  by (simp add: js_succ_def round_to_double_exact)

lemma js_succ_small: "js_succ 0 = 1" "js_succ 1 = 2" "js_succ 2 = 3"
  using js_succ_exact[of 0] js_succ_exact[of 1] js_succ_exact[of 2]
  by (simp_all add: one_enat_def zero_enat_def numeral_eq_enat)

lemma number_to_string_small:
  "number_to_string 1 = ''1''" "number_to_string 2 = ''2''" "number_to_string 3 = ''3''"
  using number_to_string_exact[of 1] number_to_string_exact[of 2] number_to_string_exact[of 3]
  by (simp_all add: one_enat_def numeral_eq_enat show_nat_small digit_chars)

lemma parseInt_small: "parseInt ''1'' = 1" "parseInt ''2'' = 2"
  by (simp_all add: parseInt_def digits_value_def digit_val_def round_to_double_exact
        one_enat_def numeral_eq_enat)

lemma mount_edge_1:
  "edge_store_mount (useEdgeManagement
     [\<lparr>edge_id = ''edge-1'', edge_source = a, edge_target = b, edge_selected = sel\<rparr>])
   = \<lparr>es_edges = [\<lparr>edge_id = ''edge-1'', edge_source = a, edge_target = b, edge_selected = sel\<rparr>],
      edgeIdCounter = 2\<rparr>"
proof -
  have m: "match_digits ''edge-'' ''edge-1'' = Some ''1''"
    by (simp add: match_here_def is_digit_def)
  show ?thesis
    by (simp add: edge_store_mount_def useEdgeManagement_def m parseInt_small js_succ_small
          del: match_digits.simps)
qed

text \<open>
  C5 (as amended). \<open>addEdge\<close> returns \<open>false\<close> and the state it was given when the
  \<open>validateEdge\<close> of its render rejects; when it accepts, \<open>addEdge\<close> returns \<open>true\<close> and
  appends exactly one unselected edge from the source to the target. In a state that the
  registry reaches through its own operations with the counter below \<open>2^53\<close>, the
  identity of the new edge is the identity of no edge already there.
\<close>

theorem addEdge_contract:
  "(\<not> ev_isValid (validateEdge rendered nodes sourceId targetId) \<longrightarrow>
      addEdge_from_render rendered s nodes sourceId targetId = (False, s))
   \<and> (ev_isValid (validateEdge rendered nodes sourceId targetId) \<longrightarrow>
        (\<exists>newEdge. fst (addEdge_from_render rendered s nodes sourceId targetId) = True
           \<and> es_edges (snd (addEdge_from_render rendered s nodes sourceId targetId))
               = es_edges s @ [newEdge]
           \<and> edge_source newEdge = sourceId \<and> edge_target newEdge = targetId
           \<and> \<not> edge_selected newEdge
           \<and> (edge_store_reachable s \<and> edgeIdCounter s < enat (2 ^ 53) \<longrightarrow>
                edge_id newEdge \<notin> edge_id ` set (es_edges s))))"
proof (intro conjI impI)
  assume "\<not> ev_isValid (validateEdge rendered nodes sourceId targetId)"
  then show "addEdge_from_render rendered s nodes sourceId targetId = (False, s)"
    by (simp add: addEdge_from_render_def)
next
  assume v: "ev_isValid (validateEdge rendered nodes sourceId targetId)"
  let ?new = "\<lparr>edge_id = ''edge-'' @ number_to_string (edgeIdCounter s), edge_source = sourceId,
               edge_target = targetId, edge_selected = False\<rparr>"
  have fresh: "edge_id ?new \<notin> edge_id ` set (es_edges s)"
    if r: "edge_store_reachable s \<and> edgeIdCounter s < enat (2 ^ 53)"
  proof
    from r obtain n where n: "edgeIdCounter s = enat n" "n < 2 ^ 53"
      by (cases "edgeIdCounter s") auto
    assume "edge_id ?new \<in> edge_id ` set (es_edges s)"
    then obtain e where e: "e \<in> set (es_edges s)"
        "edge_id e = ''edge-'' @ number_to_string (enat n)"
      using n(1) by auto
    have "id_suffix ''edge-'' (edge_id e) = Some (enat n)"
      unfolding e(2) using n(2) by (rule id_suffix_fresh)
    then have "enat n < edgeIdCounter s"
      using reachable_below_counter r e(1) by (auto simp: edge_ids_below_counter_def)
    then show False using n(1) by simp
  qed
  show "\<exists>newEdge. fst (addEdge_from_render rendered s nodes sourceId targetId) = True
           \<and> es_edges (snd (addEdge_from_render rendered s nodes sourceId targetId))
               = es_edges s @ [newEdge]
           \<and> edge_source newEdge = sourceId \<and> edge_target newEdge = targetId
           \<and> \<not> edge_selected newEdge
           \<and> (edge_store_reachable s \<and> edgeIdCounter s < enat (2 ^ 53) \<longrightarrow>
                edge_id newEdge \<notin> edge_id ` set (es_edges s))"
    using v fresh by (intro exI[of _ ?new]) (simp add: addEdge_from_render_def Let_def)
qed

theorem addEdge_contract_witness:
  "edge_store_reachable (edge_store_mount (useEdgeManagement
     [\<lparr>edge_id = ''edge-1'', edge_source = ''node-1'', edge_target = ''node-2'', edge_selected = False\<rparr>]))
   \<and> addEdge (edge_store_mount (useEdgeManagement
       [\<lparr>edge_id = ''edge-1'', edge_source = ''node-1'', edge_target = ''node-2'', edge_selected = False\<rparr>]))
     [\<lparr>node_id = ''node-1'', node_label = ''A'', node_position = \<lparr>pos_x = 0, pos_y = 0\<rparr>, node_selected = False\<rparr>,
      \<lparr>node_id = ''node-2'', node_label = ''B'', node_position = \<lparr>pos_x = 200, pos_y = 0\<rparr>, node_selected = False\<rparr>,
      \<lparr>node_id = ''node-3'', node_label = ''C'', node_position = \<lparr>pos_x = 400, pos_y = 0\<rparr>, node_selected = False\<rparr>]
     ''node-2'' ''node-3''
   = (True, \<lparr>es_edges =
        [\<lparr>edge_id = ''edge-1'', edge_source = ''node-1'', edge_target = ''node-2'', edge_selected = False\<rparr>,
         \<lparr>edge_id = ''edge-2'', edge_source = ''node-2'', edge_target = ''node-3'', edge_selected = False\<rparr>],
        edgeIdCounter = 3\<rparr>)
   \<and> ''edge-2'' \<notin> edge_id ` set (es_edges (edge_store_mount (useEdgeManagement
       [\<lparr>edge_id = ''edge-1'', edge_source = ''node-1'', edge_target = ''node-2'', edge_selected = False\<rparr>])))
   \<and> addEdge (edge_store_mount (useEdgeManagement
       [\<lparr>edge_id = ''edge-1'', edge_source = ''node-1'', edge_target = ''node-2'', edge_selected = False\<rparr>]))
     [\<lparr>node_id = ''node-1'', node_label = ''A'', node_position = \<lparr>pos_x = 0, pos_y = 0\<rparr>, node_selected = False\<rparr>,
      \<lparr>node_id = ''node-2'', node_label = ''B'', node_position = \<lparr>pos_x = 200, pos_y = 0\<rparr>, node_selected = False\<rparr>,
      \<lparr>node_id = ''node-3'', node_label = ''C'', node_position = \<lparr>pos_x = 400, pos_y = 0\<rparr>, node_selected = False\<rparr>]
     ''node-1'' ''node-2''
   = (False, edge_store_mount (useEdgeManagement
       [\<lparr>edge_id = ''edge-1'', edge_source = ''node-1'', edge_target = ''node-2'', edge_selected = False\<rparr>]))"
  (is "edge_store_reachable ?s \<and> addEdge ?s ?ns _ _ = _ \<and> _ \<and> _")
proof -
  have r: "edge_store_reachable ?s" by (rule reach_mount)
  have s: "?s = \<lparr>es_edges = [\<lparr>edge_id = ''edge-1'', edge_source = ''node-1'',
                               edge_target = ''node-2'', edge_selected = False\<rparr>],
                 edgeIdCounter = 2\<rparr>"
    by (rule mount_edge_1)
  from addEdge_contract[of "es_edges ?s" ?ns "''node-2''" "''node-3''" ?s]
       addEdge_contract[of "es_edges ?s" ?ns "''node-1''" "''node-2''" ?s] r
  show ?thesis
    unfolding s
    by (simp add: addEdge_def addEdge_from_render_def validateEdge_def js_succ_small
          number_to_string_small)
qed

text \<open>
  Two calls from one render: the second is validated against the edges of that render,
  which lack the edge of the first call, so the same connection is admitted twice, under
  two identities.
\<close>

lemma addEdge_twice_from_one_render:
  "addEdge_from_render []
     (snd (addEdge_from_render [] (edge_store_mount (useEdgeManagement []))
        [\<lparr>node_id = ''node-1'', node_label = ''A'', node_position = \<lparr>pos_x = 0, pos_y = 0\<rparr>, node_selected = False\<rparr>,
         \<lparr>node_id = ''node-2'', node_label = ''B'', node_position = \<lparr>pos_x = 200, pos_y = 0\<rparr>, node_selected = False\<rparr>]
        ''node-1'' ''node-2''))
     [\<lparr>node_id = ''node-1'', node_label = ''A'', node_position = \<lparr>pos_x = 0, pos_y = 0\<rparr>, node_selected = False\<rparr>,
      \<lparr>node_id = ''node-2'', node_label = ''B'', node_position = \<lparr>pos_x = 200, pos_y = 0\<rparr>, node_selected = False\<rparr>]
     ''node-1'' ''node-2''
   = (True, \<lparr>es_edges =
        [\<lparr>edge_id = ''edge-1'', edge_source = ''node-1'', edge_target = ''node-2'', edge_selected = False\<rparr>,
         \<lparr>edge_id = ''edge-2'', edge_source = ''node-1'', edge_target = ''node-2'', edge_selected = False\<rparr>],
        edgeIdCounter = 3\<rparr>)"
  by (simp add: addEdge_from_render_def validateEdge_def edge_store_mount_def useEdgeManagement_def
        js_succ_small number_to_string_small)

lemma show_nat_2_53: "show_nat 9007199254740992 = ''9007199254740992''"
  by (simp add: show_nat_numeral digit_chars)

lemma round_to_double_2_53:
  "round_to_double 9007199254740992 = enat 9007199254740992"
  "round_to_double 9007199254740993 = enat 9007199254740992"
proof -
  have u: "ulp_exp 9007199254740992 = 1" "ulp_exp 9007199254740993 = 1"
    by (simp_all add: ulp_exp_numeral)
  have "(2::nat) ^ 53 < 2 ^ 1024" by (rule power_strict_increasing) simp_all
  then have b: "(9007199254740992::nat) < 2 ^ 1024" by simp
  show "round_to_double 9007199254740992 = enat 9007199254740992"
    "round_to_double 9007199254740993 = enat 9007199254740992"
    using b by (simp_all add: round_to_double_def u)
qed

lemma js_succ_2_53: "js_succ 9007199254740992 = 9007199254740992"
  by (simp add: js_succ_def numeral_eq_enat round_to_double_2_53)

lemma number_to_string_2_53: "number_to_string 9007199254740992 = ''9007199254740992''"
  by (simp add: number_to_string_def numeral_eq_enat show_nat_2_53)

lemma parseInt_2_53: "parseInt ''9007199254740992'' = 9007199254740992"
proof -
  have "digits_value (show_nat 9007199254740992) = 9007199254740992"
    by (rule digits_value_show_nat)
  then show ?thesis
    by (simp add: parseInt_def show_nat_2_53 round_to_double_2_53 numeral_eq_enat)
qed

lemma mount_edge_2_53:
  "edge_store_mount (useEdgeManagement
     [\<lparr>edge_id = ''edge-9007199254740992'', edge_source = a, edge_target = b, edge_selected = sel\<rparr>])
   = \<lparr>es_edges = [\<lparr>edge_id = ''edge-9007199254740992'', edge_source = a, edge_target = b,
                    edge_selected = sel\<rparr>],
      edgeIdCounter = 9007199254740992\<rparr>"
proof -
  have m: "match_digits ''edge-'' ''edge-9007199254740992'' = Some ''9007199254740992''"
    by (simp add: match_here_def is_digit_def)
  show ?thesis
    by (simp add: edge_store_mount_def useEdgeManagement_def m parseInt_2_53 js_succ_2_53
          del: match_digits.simps)
qed

text \<open>
  C5 as stated fails at \<open>2^53\<close>: mounted on an edge \<open>edge-9007199254740992\<close>, the counter is
  \<open>9007199254740992 + 1\<close>, which rounds back to \<open>9007199254740992\<close>, and \<open>addEdge\<close> gives
  the new edge the identity of the edge already there.
\<close>

theorem addEdge_repeated_identity_counterexample:
  "addEdge (edge_store_mount (useEdgeManagement
       [\<lparr>edge_id = ''edge-9007199254740992'', edge_source = ''node-1'', edge_target = ''node-2'',
         edge_selected = False\<rparr>]))
     [\<lparr>node_id = ''node-1'', node_label = ''A'', node_position = \<lparr>pos_x = 0, pos_y = 0\<rparr>, node_selected = False\<rparr>,
      \<lparr>node_id = ''node-2'', node_label = ''B'', node_position = \<lparr>pos_x = 200, pos_y = 0\<rparr>, node_selected = False\<rparr>,
      \<lparr>node_id = ''node-3'', node_label = ''C'', node_position = \<lparr>pos_x = 400, pos_y = 0\<rparr>, node_selected = False\<rparr>]
     ''node-2'' ''node-3''
   = (True, \<lparr>es_edges =
        [\<lparr>edge_id = ''edge-9007199254740992'', edge_source = ''node-1'', edge_target = ''node-2'',
          edge_selected = False\<rparr>,
         \<lparr>edge_id = ''edge-9007199254740992'', edge_source = ''node-2'', edge_target = ''node-3'',
          edge_selected = False\<rparr>],
        edgeIdCounter = 9007199254740992\<rparr>)"
  unfolding mount_edge_2_53
  by (simp add: addEdge_def addEdge_from_render_def validateEdge_def js_succ_2_53
        number_to_string_2_53)

lemma node_mount_below_counter: "node_ids_below_counter (node_store_mount (useNodeManagement initialNodes))"
proof -
  let ?mx = "foldl (\<lambda>mx node. case match_digits ''node-'' (node_id node) of
                      Some ds \<Rightarrow> max mx (parseInt ds) | None \<Rightarrow> mx) 0 initialNodes"
  have c: "nodeIdCounter (node_store_mount (useNodeManagement initialNodes)) = js_succ ?mx"
    and e: "ns_nodes (node_store_mount (useNodeManagement initialNodes)) = initialNodes"
    by (simp_all add: node_store_mount_def useNodeManagement_def Let_def)
  show ?thesis
    unfolding node_ids_below_counter_def c e
  proof (intro impI ballI allI)
    fix node k
    assume b: "js_succ ?mx < enat (2 ^ 53)" and m: "node \<in> set initialNodes"
      and k: "id_suffix ''node-'' (node_id node) = Some k"
    from js_succ_below[OF b] obtain n where n: "?mx = enat n" "js_succ ?mx = enat (Suc n)" by auto
    have "k \<le> ?mx" using foldl_max_suffix[of 0 "''node-''" node_id initialNodes] m k by blast
    then have "k < enat (Suc n)" unfolding n(1) by (cases k) simp_all
    then show "k < js_succ ?mx" by (simp only: n(2))
  qed
qed

lemma addNode_Inr:
  "addNode s label prompted position rnd = Inr (newNode, s') \<Longrightarrow>
     node_id newNode = ''node-'' @ number_to_string (nodeIdCounter s)
     \<and> ns_nodes s' = ns_nodes s @ [newNode] \<and> nodeIdCounter s' = js_succ (nodeIdCounter s)"
  by (auto simp: addNode_def Let_def split: option.splits if_splits)

lemma node_step_below_counter:
  "node_ids_below_counter s \<Longrightarrow> node_ids_below_counter (node_step s op)"
proof (cases op)
  case (AddNode label prompted position rnd)
  assume b: "node_ids_below_counter s"
  show ?thesis
  proof (cases "addNode s label prompted position rnd")
    case (Inl err)
    then show ?thesis using b AddNode by simp
  next
    case (Inr r)
    obtain newNode s' where r: "r = (newNode, s')" by (cases r)
    note a = addNode_Inr[OF Inr[unfolded r]]
    have st: "node_step s op = s'" using AddNode Inr r by simp
    show ?thesis
      unfolding st node_ids_below_counter_def
    proof (intro impI ballI allI)
      fix node k
      assume c: "nodeIdCounter s' < enat (2 ^ 53)" and m: "node \<in> set (ns_nodes s')"
        and k: "id_suffix ''node-'' (node_id node) = Some k"
      from c a have "js_succ (nodeIdCounter s) < enat (2 ^ 53)" by simp
      from js_succ_below[OF this] obtain n
        where n: "nodeIdCounter s = enat n" "Suc n < 2 ^ 53" "js_succ (nodeIdCounter s) = enat (Suc n)"
        by auto
      have "k \<le> enat n"
      proof (cases "node = newNode")
        case True
        have "id_suffix ''node-'' (''node-'' @ number_to_string (enat n)) = Some (enat n)"
          using n(2) by (intro id_suffix_fresh) simp
        then show ?thesis using k True n(1) a by simp
      next
        case False
        then have "node \<in> set (ns_nodes s)" using m a by simp
        moreover have "nodeIdCounter s < enat (2 ^ 53)" using n by simp
        ultimately have "k < nodeIdCounter s"
          using b k by (auto simp: node_ids_below_counter_def)
        then show ?thesis using n(1) by simp
      qed
      then have "k < enat (Suc n)" by (cases k) simp_all
      then show "k < nodeIdCounter s'" using a n(3) by simp
    qed
  qed
qed (auto simp: node_ids_below_counter_def removeNode_def removeNodes_def updateNodePosition_def
       updateNodeLabel_def clearNodes_def)

text \<open>Without a clearing the counter does not go down, as long as it ends below \<open>2^53\<close>.\<close>

lemma node_step_counter_mono:
  "op \<noteq> ClearNodes \<Longrightarrow> nodeIdCounter (node_step s op) < enat (2 ^ 53) \<Longrightarrow>
     nodeIdCounter s \<le> nodeIdCounter (node_step s op)"
proof (cases op)
  case (AddNode label prompted position rnd)
  assume c: "nodeIdCounter (node_step s op) < enat (2 ^ 53)"
  show ?thesis
  proof (cases "addNode s label prompted position rnd")
    case (Inl err)
    then show ?thesis using AddNode by simp
  next
    case (Inr r)
    obtain newNode s' where r: "r = (newNode, s')" by (cases r)
    note a = addNode_Inr[OF Inr[unfolded r]]
    have st: "node_step s op = s'" using AddNode Inr r by simp
    from c a have "js_succ (nodeIdCounter s) < enat (2 ^ 53)" by (simp add: st)
    from js_succ_below[OF this] obtain n
      where n: "nodeIdCounter s = enat n" "js_succ (nodeIdCounter s) = enat (Suc n)"
      by auto
    show ?thesis unfolding st using a n by simp
  qed
qed (auto simp: removeNode_def removeNodes_def updateNodePosition_def updateNodeLabel_def)

lemma run_ops_counter_mono:
  "ClearNodes \<notin> set ops \<Longrightarrow> nodeIdCounter (run_ops s ops) < enat (2 ^ 53) \<Longrightarrow>
     nodeIdCounter s \<le> nodeIdCounter (run_ops s ops)"
proof (induction ops arbitrary: s)
  case Nil
  show ?case by (simp add: run_ops_def)
next
  case (Cons op ops)
  have run: "run_ops s (op # ops) = run_ops (node_step s op) ops" by (simp add: run_ops_def)
  have later: "nodeIdCounter (node_step s op) \<le> nodeIdCounter (run_ops (node_step s op) ops)"
    using Cons.prems by (intro Cons.IH) (auto simp: run)
  then have "nodeIdCounter (node_step s op) < enat (2 ^ 53)"
    using Cons.prems(2) by (simp add: run)
  then have "nodeIdCounter s \<le> nodeIdCounter (node_step s op)"
    using Cons.prems(1) by (intro node_step_counter_mono) auto
  then show ?case using later by (simp add: run)
qed

lemma present_since_clear_below:
  "node_ids_below_counter s \<Longrightarrow> i \<in> present_since_clear s ops \<Longrightarrow>
     id_suffix ''node-'' i = Some k \<Longrightarrow> nodeIdCounter (run_ops s ops) < enat (2 ^ 53) \<Longrightarrow>
     k < nodeIdCounter (run_ops s ops)"
proof (induction ops arbitrary: s)
  case Nil
  then show ?case by (auto simp: run_ops_def node_ids_below_counter_def)
next
  case (Cons op ops)
  have step: "node_ids_below_counter (node_step s op)"
    using Cons.prems(1) by (rule node_step_below_counter)
  have run: "run_ops s (op # ops) = run_ops (node_step s op) ops" by (simp add: run_ops_def)
  show ?case
  proof (cases "i \<in> present_since_clear (node_step s op) ops")
    case True
    from Cons.IH[OF step True Cons.prems(3)] Cons.prems(4) show ?thesis by (simp add: run)
  next
    case False
    then have nc: "ClearNodes \<notin> set (op # ops)" and i: "i \<in> node_id ` set (ns_nodes s)"
      using Cons.prems(2) by (auto split: if_splits)
    have le: "nodeIdCounter s \<le> nodeIdCounter (run_ops s (op # ops))"
      using nc Cons.prems(4) by (rule run_ops_counter_mono)
    then have "nodeIdCounter s < enat (2 ^ 53)" using Cons.prems(4) by simp
    then have "k < nodeIdCounter s"
      using i Cons.prems(1,3) by (auto simp: node_ids_below_counter_def)
    then show ?thesis using le by simp
  qed
qed

lemma mount_node_empty:
  "node_store_mount (useNodeManagement []) = \<lparr>ns_nodes = [], nodeIdCounter = 1\<rparr>"
  by (simp add: node_store_mount_def useNodeManagement_def js_succ_small)

text \<open>
  C6 (as amended). Run any sequence of registry operations from a mounted registry and
  then add a node while the counter is below \<open>2^53\<close>: the new identity has a numeric
  suffix strictly greater than the suffix of every identity that was in the registry at
  some moment since the last \<open>ClearNodes\<close> of the sequence (since mounting when there is
  none). \<open>clearNodes\<close> empties the registry and sets the counter back to 1, so
  identities from before it are not covered.
\<close>

theorem addNode_suffix_above_since_clear:
  assumes "addNode (run_ops (node_store_mount (useNodeManagement initialNodes)) ops)
             label prompted position rnd = Inr (newNode, s')"
    and "nodeIdCounter (run_ops (node_store_mount (useNodeManagement initialNodes)) ops)
           < enat (2 ^ 53)"
  shows "suffix_above (node_id newNode)
           (present_since_clear (node_store_mount (useNodeManagement initialNodes)) ops)
       \<and> clearNodes st = \<lparr>ns_nodes = [], nodeIdCounter = 1\<rparr>"
proof
  let ?s0 = "node_store_mount (useNodeManagement initialNodes)"
  from assms(2) obtain n where n: "nodeIdCounter (run_ops ?s0 ops) = enat n" "n < 2 ^ 53"
    by (cases "nodeIdCounter (run_ops ?s0 ops)") auto
  have i: "node_id newNode = ''node-'' @ number_to_string (enat n)"
    using addNode_Inr[OF assms(1)] n(1) by simp
  have "id_suffix ''node-'' (node_id newNode) = Some (nodeIdCounter (run_ops ?s0 ops))"
    unfolding i n(1) using n(2) by (rule id_suffix_fresh)
  then show "suffix_above (node_id newNode) (present_since_clear ?s0 ops)"
    using present_since_clear_below[OF node_mount_below_counter _ _ assms(2)]
    by (auto simp: suffix_above_def split: option.splits)
  show "clearNodes st = \<lparr>ns_nodes = [], nodeIdCounter = 1\<rparr>"
    by (simp add: clearNodes_def)
qed

theorem addNode_suffix_above_since_clear_witness:
  "addNode (run_ops (node_store_mount (useNodeManagement []))
              [AddNode (Some ''A'') None None (0, 0), RemoveNode ''node-1''])
           (Some ''B'') None None (0, 0)
     = Inr (\<lparr>node_id = ''node-2'', node_label = ''B'',
              node_position = \<lparr>pos_x = 100, pos_y = 100\<rparr>, node_selected = False\<rparr>,
            \<lparr>ns_nodes = [\<lparr>node_id = ''node-2'', node_label = ''B'',
                 node_position = \<lparr>pos_x = 100, pos_y = 100\<rparr>, node_selected = False\<rparr>],
              nodeIdCounter = 3\<rparr>)
   \<and> nodeIdCounter (run_ops (node_store_mount (useNodeManagement []))
              [AddNode (Some ''A'') None None (0, 0), RemoveNode ''node-1'']) = 2
   \<and> suffix_above ''node-2''
        (present_since_clear (node_store_mount (useNodeManagement []))
           [AddNode (Some ''A'') None None (0, 0), RemoveNode ''node-1''])
   \<and> clearNodes \<lparr>ns_nodes = [\<lparr>node_id = ''node-2'', node_label = ''B'',
                 node_position = \<lparr>pos_x = 100, pos_y = 100\<rparr>, node_selected = False\<rparr>],
              nodeIdCounter = 3\<rparr> = \<lparr>ns_nodes = [], nodeIdCounter = 1\<rparr>"
proof -
  have r: "run_ops (node_store_mount (useNodeManagement []))
              [AddNode (Some ''A'') None None (0, 0), RemoveNode ''node-1'']
           = \<lparr>ns_nodes = [], nodeIdCounter = 2\<rparr>"
    by (simp add: run_ops_def mount_node_empty addNode_def trim_def is_space_def removeNode_def
          number_to_string_small js_succ_small Let_def)
  have a: "addNode (run_ops (node_store_mount (useNodeManagement []))
              [AddNode (Some ''A'') None None (0, 0), RemoveNode ''node-1''])
           (Some ''B'') None None (0, 0)
     = Inr (\<lparr>node_id = ''node-2'', node_label = ''B'',
              node_position = \<lparr>pos_x = 100, pos_y = 100\<rparr>, node_selected = False\<rparr>,
            \<lparr>ns_nodes = [\<lparr>node_id = ''node-2'', node_label = ''B'',
                 node_position = \<lparr>pos_x = 100, pos_y = 100\<rparr>, node_selected = False\<rparr>],
              nodeIdCounter = 3\<rparr>)"
    unfolding r
    by (simp add: addNode_def trim_def is_space_def number_to_string_small js_succ_small Let_def)
  have c: "nodeIdCounter (run_ops (node_store_mount (useNodeManagement []))
              [AddNode (Some ''A'') None None (0, 0), RemoveNode ''node-1'']) < enat (2 ^ 53)"
    unfolding r by (simp add: numeral_eq_enat)
  from addNode_suffix_above_since_clear[OF a c] a r show ?thesis by simp
qed

lemma mount_node_2_53:
  "node_store_mount (useNodeManagement
     [\<lparr>node_id = ''node-9007199254740992'', node_label = l, node_position = p, node_selected = sel\<rparr>])
   = \<lparr>ns_nodes = [\<lparr>node_id = ''node-9007199254740992'', node_label = l, node_position = p,
                    node_selected = sel\<rparr>],
      nodeIdCounter = 9007199254740992\<rparr>"
proof -
  have m: "match_digits ''node-'' ''node-9007199254740992'' = Some ''9007199254740992''"
    by (simp add: match_here_def is_digit_def)
  show ?thesis
    by (simp add: node_store_mount_def useNodeManagement_def m parseInt_2_53 js_succ_2_53
          del: match_digits.simps)
qed

lemma id_suffix_node_2_53:
  "id_suffix ''node-'' ''node-9007199254740992'' = Some 9007199254740992"
proof -
  have m: "match_digits ''node-'' ''node-9007199254740992'' = Some ''9007199254740992''"
    by (simp add: match_here_def is_digit_def)
  show ?thesis by (simp add: id_suffix_def m parseInt_2_53 del: match_digits.simps)
qed

lemma id_suffix_node_small:
  "id_suffix ''node-'' ''node-1'' = Some 1" "id_suffix ''node-'' ''node-2'' = Some 2"
proof -
  have m: "match_digits ''node-'' ''node-1'' = Some ''1''"
      "match_digits ''node-'' ''node-2'' = Some ''2''"
    by (simp_all add: match_here_def is_digit_def)
  show "id_suffix ''node-'' ''node-1'' = Some 1" "id_suffix ''node-'' ''node-2'' = Some 2"
    by (simp_all add: id_suffix_def m parseInt_small del: match_digits.simps)
qed

text \<open>
  C6 as stated fails twice. After two additions and a \<open>ClearNodes\<close> the next node is named
  \<open>node-1\<close> again, while \<open>node-2\<close> was in the registry earlier in the same sequence. And
  mounted on a node \<open>node-9007199254740992\<close> (\<open>2^53\<close>), the counter is
  \<open>9007199254740992 + 1\<close>, which rounds back to \<open>9007199254740992\<close>: the next node gets
  the suffix of the node already there, not a greater one.
\<close>

theorem addNode_suffix_not_above_counterexample:
  "(case addNode (run_ops (node_store_mount (useNodeManagement []))
              [AddNode (Some ''A'') None None (0, 0), AddNode (Some ''B'') None None (0, 0), ClearNodes])
            (Some ''C'') None None (0, 0) of
      Inl err \<Rightarrow> False
    | Inr (newNode, s') \<Rightarrow>
        node_id newNode = ''node-1''
        \<and> ''node-2'' \<in> present_ever (node_store_mount (useNodeManagement []))
               [AddNode (Some ''A'') None None (0, 0), AddNode (Some ''B'') None None (0, 0), ClearNodes]
        \<and> \<not> suffix_above (node_id newNode)
            (present_ever (node_store_mount (useNodeManagement []))
               [AddNode (Some ''A'') None None (0, 0), AddNode (Some ''B'') None None (0, 0), ClearNodes]))
   \<and> (case addNode (run_ops (node_store_mount (useNodeManagement
              [\<lparr>node_id = ''node-9007199254740992'', node_label = ''A'',
                node_position = \<lparr>pos_x = 0, pos_y = 0\<rparr>, node_selected = False\<rparr>])) [])
            (Some ''B'') None None (0, 0) of
      Inl err \<Rightarrow> False
    | Inr (newNode, s') \<Rightarrow>
        node_id newNode = ''node-9007199254740992''
        \<and> \<not> suffix_above (node_id newNode)
            (present_ever (node_store_mount (useNodeManagement
              [\<lparr>node_id = ''node-9007199254740992'', node_label = ''A'',
                node_position = \<lparr>pos_x = 0, pos_y = 0\<rparr>, node_selected = False\<rparr>])) []))"
proof
  show "(case addNode (run_ops (node_store_mount (useNodeManagement []))
              [AddNode (Some ''A'') None None (0, 0), AddNode (Some ''B'') None None (0, 0), ClearNodes])
            (Some ''C'') None None (0, 0) of
      Inl err \<Rightarrow> False
    | Inr (newNode, s') \<Rightarrow>
        node_id newNode = ''node-1''
        \<and> ''node-2'' \<in> present_ever (node_store_mount (useNodeManagement []))
               [AddNode (Some ''A'') None None (0, 0), AddNode (Some ''B'') None None (0, 0), ClearNodes]
        \<and> \<not> suffix_above (node_id newNode)
            (present_ever (node_store_mount (useNodeManagement []))
               [AddNode (Some ''A'') None None (0, 0), AddNode (Some ''B'') None None (0, 0), ClearNodes]))"
    by (simp add: run_ops_def mount_node_empty addNode_def trim_def is_space_def clearNodes_def
          suffix_above_def id_suffix_node_small number_to_string_small js_succ_small Let_def)
  show "(case addNode (run_ops (node_store_mount (useNodeManagement
              [\<lparr>node_id = ''node-9007199254740992'', node_label = ''A'',
                node_position = \<lparr>pos_x = 0, pos_y = 0\<rparr>, node_selected = False\<rparr>])) [])
            (Some ''B'') None None (0, 0) of
      Inl err \<Rightarrow> False
    | Inr (newNode, s') \<Rightarrow>
        node_id newNode = ''node-9007199254740992''
        \<and> \<not> suffix_above (node_id newNode)
            (present_ever (node_store_mount (useNodeManagement
              [\<lparr>node_id = ''node-9007199254740992'', node_label = ''A'',
                node_position = \<lparr>pos_x = 0, pos_y = 0\<rparr>, node_selected = False\<rparr>])) []))"
    unfolding mount_node_2_53
    by (simp add: run_ops_def addNode_def trim_def is_space_def suffix_above_def
          id_suffix_node_2_53 number_to_string_2_53 js_succ_2_53 Let_def)
qed

text \<open>A label that is white space only is refused, the no-break space included.\<close>

lemma addNode_blank_label:
  "addNode s (Some [CHR 0x20, CHR 0xA0, CHR 0x09]) None position rnd = Inl ''Node name is required''"
  by (simp add: addNode_def trim_def is_space_def)

section \<open>Validator: no false alarm on an acyclic graph\<close>

lemma graph_get_update:
  "graph_get (AList.update k v g) k' = (if k' = k then v else graph_get g k')"
  by (simp add: graph_get_def update_conv')

lemma graph_get_nodes_fold:
  "(\<forall>v. graph_get g v = []) \<Longrightarrow>
     graph_get (fold (\<lambda>node g. AList.update (node_id node) [] g) nodes g) v = []"
  by (induction nodes arbitrary: g) (simp_all add: graph_get_update)

lemma graph_get_edges_fold:
  "(\<forall>v. \<forall>n \<in> set (graph_get g v). (v, n) \<in> R) \<Longrightarrow> edge_rel edges \<subseteq> R \<Longrightarrow>
     \<forall>n \<in> set (graph_get (fold (\<lambda>edge g. AList.update (edge_source edge)
                           (graph_get g (edge_source edge) @ [edge_target edge]) g) edges g) v).
        (v, n) \<in> R"
proof (induction edges arbitrary: g)
  case Nil
  then show ?case by simp
next
  case (Cons e edges)
  let ?g = "AList.update (edge_source e) (graph_get g (edge_source e) @ [edge_target e]) g"
  have "\<forall>v. \<forall>n \<in> set (graph_get ?g v). (v, n) \<in> R"
    using Cons.prems by (auto simp: graph_get_update edge_rel_def)
  moreover have "edge_rel edges \<subseteq> R" using Cons.prems by (auto simp: edge_rel_def)
  ultimately show ?case using Cons.IH[of ?g] by simp
qed

lemma build_graph_edges:
  "n \<in> set (graph_get (build_graph nodes edges) v) \<Longrightarrow> (v, n) \<in> edge_rel edges"
proof -
  have e: "\<forall>v. graph_get [] v = []" by (simp add: graph_get_def)
  have "\<forall>v. \<forall>n \<in> set (graph_get (fold (\<lambda>node g. AList.update (node_id node) [] g) nodes []) v).
           (v, n) \<in> edge_rel edges"
    by (simp add: graph_get_nodes_fold[OF e])
  from graph_get_edges_fold[OF this subset_refl]
  show "n \<in> set (graph_get (build_graph nodes edges) v) \<Longrightarrow> (v, n) \<in> edge_rel edges"
    by (simp add: build_graph_def Let_def)
qed

lemma dfs_sound:
  "(\<And>v n. n \<in> set (graph_get g v) \<Longrightarrow> (v, n) \<in> R) \<Longrightarrow> (\<forall>s \<in> snd st. (s, v) \<in> R\<^sup>+) \<Longrightarrow>
     (fst (dfs g v st) \<longrightarrow> (\<exists>x. (x, x) \<in> R\<^sup>+)) \<and>
     (\<not> fst (dfs g v st) \<longrightarrow> snd (snd (dfs g v st)) = snd st)"
  "(\<And>v n. n \<in> set (graph_get g v) \<Longrightarrow> (v, n) \<in> R) \<Longrightarrow> (\<forall>s \<in> snd st. \<forall>n \<in> set ns. (s, n) \<in> R\<^sup>+) \<Longrightarrow>
     (fst (dfs_neighbors g ns st) \<longrightarrow> (\<exists>x. (x, x) \<in> R\<^sup>+)) \<and>
     (\<not> fst (dfs_neighbors g ns st) \<longrightarrow> snd (snd (dfs_neighbors g ns st)) = snd st)"
proof (induction g v st and g ns st rule: dfs_dfs_neighbors.induct)
  case (1 g nodeId visited recursionStack)
  show ?case
  proof (cases "nodeId \<in> recursionStack")
    case True
    then have "(nodeId, nodeId) \<in> R\<^sup>+" using 1(3) by simp
    then show ?thesis using True by auto
  next
    case notstk: False
    show ?thesis
    proof (cases "nodeId \<in> visited")
      case True
      then show ?thesis using notstk by simp
    next
      case False
      let ?st = "(insert nodeId visited, insert nodeId recursionStack)"
      have pre: "\<forall>s \<in> snd ?st. \<forall>n \<in> set (graph_get g nodeId). (s, n) \<in> R\<^sup>+"
      proof (intro ballI)
        fix s n assume s: "s \<in> snd ?st" and n: "n \<in> set (graph_get g nodeId)"
        have step: "(nodeId, n) \<in> R" using 1(2)[OF n] .
        show "(s, n) \<in> R\<^sup>+"
        proof (cases "s = nodeId")
          case True
          then show ?thesis using step by auto
        next
          case False
          then have "(s, nodeId) \<in> R\<^sup>+" using s 1(3) by simp
          then show ?thesis using step by (rule trancl_into_trancl)
        qed
      qed
      from 1(1)[OF notstk False 1(2) pre]
      have ih: "(fst (dfs_neighbors g (graph_get g nodeId) ?st) \<longrightarrow> (\<exists>x. (x, x) \<in> R\<^sup>+)) \<and>
        (\<not> fst (dfs_neighbors g (graph_get g nodeId) ?st) \<longrightarrow>
           snd (snd (dfs_neighbors g (graph_get g nodeId) ?st)) = snd ?st)"
        by simp
      obtain found vis' stk' where r: "dfs_neighbors g (graph_get g nodeId) ?st = (found, vis', stk')"
        by (cases "dfs_neighbors g (graph_get g nodeId) ?st") auto
      show ?thesis using ih r notstk False by auto
    qed
  qed
next
  case (2 g st)
  then show ?case by simp
next
  case (3 g neighbor rest st)
  obtain found st' where r: "dfs g neighbor st = (found, st')" by (cases "dfs g neighbor st")
  have a: "(fst (dfs g neighbor st) \<longrightarrow> (\<exists>x. (x, x) \<in> R\<^sup>+)) \<and>
     (\<not> fst (dfs g neighbor st) \<longrightarrow> snd (snd (dfs g neighbor st)) = snd st)"
    using 3(1)[OF 3(3)] 3(4) by simp
  show ?case
  proof (cases found)
    case True
    then show ?thesis using a r by simp
  next
    case False
    then have stk: "snd st' = snd st" using a r by simp
    have "\<forall>s \<in> snd st'. \<forall>n \<in> set rest. (s, n) \<in> R\<^sup>+" using 3(4) stk by simp
    from 3(2)[OF r[symmetric] False 3(3) this] show ?thesis using r False stk by simp
  qed
qed

lemma detect_from_sound:
  "(\<And>v n. n \<in> set (graph_get g v) \<Longrightarrow> (v, n) \<in> R) \<Longrightarrow> snd st = {} \<Longrightarrow>
     detect_from g nodes st \<Longrightarrow> \<exists>x. (x, x) \<in> R\<^sup>+"
proof (induction nodes arbitrary: st)
  case Nil
  then show ?case by simp
next
  case (Cons node rest)
  show ?case
  proof (cases "node_id node \<notin> fst st")
    case True
    obtain found st' where r: "dfs g (node_id node) st = (found, st')"
      by (cases "dfs g (node_id node) st")
    have a: "(fst (dfs g (node_id node) st) \<longrightarrow> (\<exists>x. (x, x) \<in> R\<^sup>+)) \<and>
     (\<not> fst (dfs g (node_id node) st) \<longrightarrow> snd (snd (dfs g (node_id node) st)) = snd st)"
      using dfs_sound(1)[of g R st "node_id node"] Cons.prems(1,2) by simp
    show ?thesis
    proof (cases found)
      case True
      then show ?thesis using a r by simp
    next
      case False
      then have "snd st' = {}" using a r Cons.prems(2) by simp
      moreover have "detect_from g rest st'" using Cons.prems(3) True r False by simp
      ultimately show ?thesis using Cons.IH[of st'] Cons.prems(1) by blast
    qed
  next
    case False
    then have "detect_from g rest st" using Cons.prems(3) by simp
    then show ?thesis using Cons.IH[of st] Cons.prems(1,2) by blast
  qed
qed

lemma detectCycle_sound: "detectCycle nodes edges \<Longrightarrow> \<not> acyclic (edge_rel edges)"
proof -
  assume "detectCycle nodes edges"
  then have "detect_from (build_graph nodes edges) nodes ({}, {})" by (simp add: detectCycle_def)
  from detect_from_sound[OF _ _ this, of "edge_rel edges"]
  have "\<exists>x. (x, x) \<in> (edge_rel edges)\<^sup>+" using build_graph_edges by simp
  then show ?thesis by (auto simp: acyclic_def)
qed

lemma connected_fold:
  "fold (\<lambda>edge c. insert (edge_target edge) (insert (edge_source edge) c)) edges c0 =
     c0 \<union> edge_source ` set edges \<union> edge_target ` set edges"
  by (induction edges arbitrary: c0) auto

text \<open>
  C3. With at least two nodes, every node an endpoint of some edge, no self-loop and an
  acyclic edge relation, \<open>validate\<close> answers valid with no error. And for every input the
  verdict is valid exactly when the error list is empty and there are at least two nodes.
\<close>

theorem validate_connected_acyclic:
  assumes "2 \<le> length nodes"
    and "\<forall>node \<in> set nodes. \<exists>edge \<in> set edges.
           edge_source edge = node_id node \<or> edge_target edge = node_id node"
    and "\<forall>edge \<in> set edges. edge_source edge \<noteq> edge_target edge"
    and "acyclic (edge_rel edges)"
  shows "validate nodes edges = \<lparr>isValid = True, errors = []\<rparr>
       \<and> (\<forall>ns es. isValid (validate ns es) = (errors (validate ns es) = [] \<and> 2 \<le> length ns))"
proof
  have nc: "\<not> detectCycle nodes edges" using detectCycle_sound assms(4) by blast
  have conn: "filter (\<lambda>node. node_id node \<notin>
       fold (\<lambda>edge c. insert (edge_target edge) (insert (edge_source edge) c)) edges {}) nodes = []"
    using assms(2) by (auto simp: connected_fold filter_empty_conv image_iff) metis
  have loops: "filter (\<lambda>edge. edge_source edge = edge_target edge) edges = []"
    using assms(3) by (simp add: filter_empty_conv)
  show "validate nodes edges = \<lparr>isValid = True, errors = []\<rparr>"
    using assms(1) nc by (simp add: validate_def conn loops)
  show "\<forall>ns es. isValid (validate ns es) = (errors (validate ns es) = [] \<and> 2 \<le> length ns)"
    by (simp add: validate_def Let_def)
qed

theorem validate_connected_acyclic_witness:
  "validate
     [\<lparr>node_id = ''node-1'', node_label = ''A'', node_position = \<lparr>pos_x = 0, pos_y = 0\<rparr>, node_selected = False\<rparr>,
      \<lparr>node_id = ''node-2'', node_label = ''B'', node_position = \<lparr>pos_x = 200, pos_y = 0\<rparr>, node_selected = False\<rparr>]
     [\<lparr>edge_id = ''edge-1'', edge_source = ''node-1'', edge_target = ''node-2'', edge_selected = False\<rparr>]
   = \<lparr>isValid = True, errors = []\<rparr>"
proof -
  have "acyclic (edge_rel [\<lparr>edge_id = ''edge-1'', edge_source = ''node-1'', edge_target = ''node-2'', edge_selected = False\<rparr>])"
    by (simp add: edge_rel_def acyclic_insert wf_acyclic)
  from validate_connected_acyclic[OF _ _ _ this, of "[\<lparr>node_id = ''node-1'', node_label = ''A'', node_position = \<lparr>pos_x = 0, pos_y = 0\<rparr>, node_selected = False\<rparr>,
      \<lparr>node_id = ''node-2'', node_label = ''B'', node_position = \<lparr>pos_x = 200, pos_y = 0\<rparr>, node_selected = False\<rparr>]"]
  show ?thesis by simp
qed

section \<open>Placement search\<close>









section \<open>Layout engine: arithmetic of the positions\<close>

lemma js_round_of_int: "js_round (of_int k) = of_int k"
  by (simp add: js_round_def)

lemma sqrt_less_iff_sq: "0 \<le> b \<Longrightarrow> (sqrt a < b) = (a < b * b)"
proof -
  assume b: "0 \<le> b"
  have "sqrt (b * b) = b" using b by (simp add: real_sqrt_mult)
  then show ?thesis by (metis real_sqrt_less_iff)
qed

lemma sqrt3_bounds: "1.727 < sqrt 3" "sqrt 3 < 1.74"
proof -
  have "(1.727::real)\<^sup>2 < 3" by (simp add: power2_eq_square)
  then show "1.727 < sqrt 3" by (rule real_less_rsqrt)
  have "(3::real) < 1.74\<^sup>2" by (simp add: power2_eq_square)
  then show "sqrt 3 < 1.74" by (intro real_less_lsqrt) simp_all
qed

lemma round_470: "js_round (340 + 75 * sqrt 3) = 470"
proof -
  have "\<lfloor>340 + 75 * sqrt 3 + 1 / 2\<rfloor> = 470"
    using sqrt3_bounds by (intro floor_unique) simp_all
  then show ?thesis by (simp add: js_round_def)
qed

lemma round_210: "js_round (340 - 75 * sqrt 3) = 210"
proof -
  have "\<lfloor>340 - 75 * sqrt 3 + 1 / 2\<rfloor> = 210"
    using sqrt3_bounds by (intro floor_unique) simp_all
  then show ?thesis by (simp add: js_round_def)
qed

lemma cos_5pi6: "cos (5 * pi / 6) = - (sqrt 3 / 2)"
proof -
  have "cos (5 * pi / 6) = cos (pi - pi / 6)" by (simp add: field_simps)
  also have "\<dots> = - cos (pi / 6)" by (rule cos_pi_minus)
  finally show ?thesis by (simp add: cos_30)
qed

lemma sin_5pi6: "sin (5 * pi / 6) = 1 / 2"
proof -
  have "sin (5 * pi / 6) = sin (pi - pi / 6)" by (simp add: field_simps)
  also have "\<dots> = sin (pi / 6)" by (rule sin_pi_minus)
  finally show ?thesis by (simp add: sin_30)
qed

lemma calculateCircularLayout_three:
  "calculateCircularLayout
      [\<lparr>node_id = a, node_label = la, node_position = pa, node_selected = sa\<rparr>,
       \<lparr>node_id = b, node_label = lb, node_position = pb, node_selected = sb\<rparr>,
       \<lparr>node_id = c, node_label = lc, node_position = pc, node_selected = sc\<rparr>] None None =
      [\<lparr>node_id = a, node_label = la, node_position = \<lparr>pos_x = 340, pos_y = 120\<rparr>, node_selected = sa\<rparr>,
       \<lparr>node_id = b, node_label = lb, node_position = \<lparr>pos_x = 470, pos_y = 345\<rparr>, node_selected = sb\<rparr>,
       \<lparr>node_id = c, node_label = lc, node_position = \<lparr>pos_x = 210, pos_y = 345\<rparr>, node_selected = sc\<rparr>]"
proof -
  have a1: "- pi / 2 + 2 * pi / 3 = pi / 6" by (simp add: field_simps)
  have a2: "- pi / 2 + 2 * (2 * pi / 3) = 5 * pi / 6" by (simp add: field_simps)
  have r1: "js_round 340 = 340" "js_round 120 = 120" "js_round 345 = 345"
    using js_round_of_int[of 340] js_round_of_int[of 120] js_round_of_int[of 345] by simp_all
  show ?thesis
    by (simp add: calculateCircularLayout_def map_position_def NODE_WIDTH_def NODE_HEIGHT_def
          a1 a2 cos_30 sin_30 cos_5pi6 sin_5pi6 r1 round_470 round_210)
qed

lemma index_pairs_3: "index_pairs (Suc (Suc (Suc 0))) = [(0, Suc 0), (0, 2), (Suc 0, 2)]"
  by (simp add: index_pairs_def upt_rec)

lemma separate_apart:
  "\<not> sqrt ((pos_x (node_position (fst st ! snd ij)) - pos_x (node_position (fst st ! fst ij)))
            * (pos_x (node_position (fst st ! snd ij)) - pos_x (node_position (fst st ! fst ij)))
          + (pos_y (node_position (fst st ! snd ij)) - pos_y (node_position (fst st ! fst ij)))
            * (pos_y (node_position (fst st ! snd ij)) - pos_y (node_position (fst st ! fst ij))))
       < minDistance
   \<Longrightarrow> separate minDistance ij st = st"
  by (simp add: separate_def Let_def)

lemma resolveNodeOverlaps_three:
  "resolveNodeOverlaps
      [\<lparr>node_id = a, node_label = la, node_position = \<lparr>pos_x = 340, pos_y = 120\<rparr>, node_selected = sa\<rparr>,
       \<lparr>node_id = b, node_label = lb, node_position = \<lparr>pos_x = 470, pos_y = 345\<rparr>, node_selected = sb\<rparr>,
       \<lparr>node_id = c, node_label = lc, node_position = \<lparr>pos_x = 210, pos_y = 345\<rparr>, node_selected = sc\<rparr>]
     (Some 50) =
      [\<lparr>node_id = a, node_label = la, node_position = \<lparr>pos_x = 340, pos_y = 120\<rparr>, node_selected = sa\<rparr>,
       \<lparr>node_id = b, node_label = lb, node_position = \<lparr>pos_x = 470, pos_y = 345\<rparr>, node_selected = sb\<rparr>,
       \<lparr>node_id = c, node_label = lc, node_position = \<lparr>pos_x = 210, pos_y = 345\<rparr>, node_selected = sc\<rparr>]"
  (is "resolveNodeOverlaps ?ns (Some 50) = ?ns")
proof -
  have p01: "separate 170 (0, Suc 0) (?ns, False) = (?ns, False)"
    by (rule separate_apart) (simp add: sqrt_less_iff_sq)
  have p02: "separate 170 (0, 2) (?ns, False) = (?ns, False)"
    by (rule separate_apart) (simp add: sqrt_less_iff_sq)
  have p12: "separate 170 (Suc 0, 2) (?ns, False) = (?ns, False)"
    by (rule separate_apart) (simp add: sqrt_less_iff_sq)
  have f: "fold (separate 170) (index_pairs (length ?ns)) (?ns, False) = (?ns, False)"
    by (simp add: index_pairs_3 p01 p02 p12)
  have "resolve_loop 170 0 ?ns = ?ns"
    by (subst resolve_loop.simps) (simp only: f, simp)
  then show ?thesis by (simp add: resolveNodeOverlaps_def NODE_WIDTH_def)
qed

lemma getSuggestedLayout_three:
  "getSuggestedLayout
      [\<lparr>node_id = a, node_label = la, node_position = pa, node_selected = sa\<rparr>,
       \<lparr>node_id = b, node_label = lb, node_position = pb, node_selected = sb\<rparr>,
       \<lparr>node_id = c, node_label = lc, node_position = pc, node_selected = sc\<rparr>]
      [\<lparr>edge_id = i1, edge_source = a, edge_target = b, edge_selected = s1\<rparr>,
       \<lparr>edge_id = i2, edge_source = b, edge_target = c, edge_selected = s2\<rparr>] = Circular"
  by (simp add: getSuggestedLayout_def)

lemma detectCycle_chain:
  assumes "a \<noteq> b" "b \<noteq> c" "a \<noteq> c"
  shows "\<not> detectCycle
      [\<lparr>node_id = a, node_label = la, node_position = pa, node_selected = sa\<rparr>,
       \<lparr>node_id = b, node_label = lb, node_position = pb, node_selected = sb\<rparr>,
       \<lparr>node_id = c, node_label = lc, node_position = pc, node_selected = sc\<rparr>]
      [\<lparr>edge_id = i1, edge_source = a, edge_target = b, edge_selected = s1\<rparr>,
       \<lparr>edge_id = i2, edge_source = b, edge_target = c, edge_selected = s2\<rparr>]"
proof -
  have ne: "b \<noteq> a" "c \<noteq> b" "c \<noteq> a" using assms by auto
  show ?thesis
    using assms ne by (simp add: detectCycle_def build_graph_def graph_get_def)
qed

text \<open>
  C1 (as amended). Let \<open>a\<close>, \<open>b\<close>, \<open>c\<close> be three distinct identities, the nodes of the
  graph, with the edges from \<open>a\<close> to \<open>b\<close> and from \<open>b\<close> to \<open>c\<close>. Then \<open>validate\<close> answers
  valid; \<open>getSuggestedLayout\<close> answers the circular layout, since a graph of at most four
  nodes is sent there before the tree test is reached; and \<open>applyBestLayout\<close> places the
  three nodes on the circle at \<open>(340, 120)\<close>, \<open>(470, 345)\<close> and \<open>(210, 345)\<close>: three
  distinct positions whose rectangles do not overlap.
\<close>

theorem applyBestLayout_chain_of_three:
  assumes "a \<noteq> b" "b \<noteq> c" "a \<noteq> c"
  shows "isValid (validate
      [\<lparr>node_id = a, node_label = la, node_position = pa, node_selected = sa\<rparr>,
       \<lparr>node_id = b, node_label = lb, node_position = pb, node_selected = sb\<rparr>,
       \<lparr>node_id = c, node_label = lc, node_position = pc, node_selected = sc\<rparr>]
      [\<lparr>edge_id = i1, edge_source = a, edge_target = b, edge_selected = s1\<rparr>,
       \<lparr>edge_id = i2, edge_source = b, edge_target = c, edge_selected = s2\<rparr>])
   \<and> getSuggestedLayout
      [\<lparr>node_id = a, node_label = la, node_position = pa, node_selected = sa\<rparr>,
       \<lparr>node_id = b, node_label = lb, node_position = pb, node_selected = sb\<rparr>,
       \<lparr>node_id = c, node_label = lc, node_position = pc, node_selected = sc\<rparr>]
      [\<lparr>edge_id = i1, edge_source = a, edge_target = b, edge_selected = s1\<rparr>,
       \<lparr>edge_id = i2, edge_source = b, edge_target = c, edge_selected = s2\<rparr>] = Circular
   \<and> applyBestLayout depth dagre rnd
      [\<lparr>node_id = a, node_label = la, node_position = pa, node_selected = sa\<rparr>,
       \<lparr>node_id = b, node_label = lb, node_position = pb, node_selected = sb\<rparr>,
       \<lparr>node_id = c, node_label = lc, node_position = pc, node_selected = sc\<rparr>]
      [\<lparr>edge_id = i1, edge_source = a, edge_target = b, edge_selected = s1\<rparr>,
       \<lparr>edge_id = i2, edge_source = b, edge_target = c, edge_selected = s2\<rparr>] canvasSize
     = Some
      [\<lparr>node_id = a, node_label = la, node_position = \<lparr>pos_x = 340, pos_y = 120\<rparr>, node_selected = sa\<rparr>,
       \<lparr>node_id = b, node_label = lb, node_position = \<lparr>pos_x = 470, pos_y = 345\<rparr>, node_selected = sb\<rparr>,
       \<lparr>node_id = c, node_label = lc, node_position = \<lparr>pos_x = 210, pos_y = 345\<rparr>, node_selected = sc\<rparr>]
   \<and> distinct (map node_position
      [\<lparr>node_id = a, node_label = la, node_position = \<lparr>pos_x = 340, pos_y = 120\<rparr>, node_selected = sa\<rparr>,
       \<lparr>node_id = b, node_label = lb, node_position = \<lparr>pos_x = 470, pos_y = 345\<rparr>, node_selected = sb\<rparr>,
       \<lparr>node_id = c, node_label = lc, node_position = \<lparr>pos_x = 210, pos_y = 345\<rparr>, node_selected = sc\<rparr>])
   \<and> no_overlaps
      [\<lparr>node_id = a, node_label = la, node_position = \<lparr>pos_x = 340, pos_y = 120\<rparr>, node_selected = sa\<rparr>,
       \<lparr>node_id = b, node_label = lb, node_position = \<lparr>pos_x = 470, pos_y = 345\<rparr>, node_selected = sb\<rparr>,
       \<lparr>node_id = c, node_label = lc, node_position = \<lparr>pos_x = 210, pos_y = 345\<rparr>, node_selected = sc\<rparr>]"
proof (intro conjI)
  have ne: "b \<noteq> a" "c \<noteq> b" "c \<noteq> a" using assms by auto
  show "isValid (validate
      [\<lparr>node_id = a, node_label = la, node_position = pa, node_selected = sa\<rparr>,
       \<lparr>node_id = b, node_label = lb, node_position = pb, node_selected = sb\<rparr>,
       \<lparr>node_id = c, node_label = lc, node_position = pc, node_selected = sc\<rparr>]
      [\<lparr>edge_id = i1, edge_source = a, edge_target = b, edge_selected = s1\<rparr>,
       \<lparr>edge_id = i2, edge_source = b, edge_target = c, edge_selected = s2\<rparr>])"
    using assms ne by (simp add: validate_def detectCycle_chain)
  show "getSuggestedLayout
      [\<lparr>node_id = a, node_label = la, node_position = pa, node_selected = sa\<rparr>,
       \<lparr>node_id = b, node_label = lb, node_position = pb, node_selected = sb\<rparr>,
       \<lparr>node_id = c, node_label = lc, node_position = pc, node_selected = sc\<rparr>]
      [\<lparr>edge_id = i1, edge_source = a, edge_target = b, edge_selected = s1\<rparr>,
       \<lparr>edge_id = i2, edge_source = b, edge_target = c, edge_selected = s2\<rparr>] = Circular"
    by (rule getSuggestedLayout_three)
  show "applyBestLayout depth dagre rnd
      [\<lparr>node_id = a, node_label = la, node_position = pa, node_selected = sa\<rparr>,
       \<lparr>node_id = b, node_label = lb, node_position = pb, node_selected = sb\<rparr>,
       \<lparr>node_id = c, node_label = lc, node_position = pc, node_selected = sc\<rparr>]
      [\<lparr>edge_id = i1, edge_source = a, edge_target = b, edge_selected = s1\<rparr>,
       \<lparr>edge_id = i2, edge_source = b, edge_target = c, edge_selected = s2\<rparr>] canvasSize
     = Some
      [\<lparr>node_id = a, node_label = la, node_position = \<lparr>pos_x = 340, pos_y = 120\<rparr>, node_selected = sa\<rparr>,
       \<lparr>node_id = b, node_label = lb, node_position = \<lparr>pos_x = 470, pos_y = 345\<rparr>, node_selected = sb\<rparr>,
       \<lparr>node_id = c, node_label = lc, node_position = \<lparr>pos_x = 210, pos_y = 345\<rparr>, node_selected = sc\<rparr>]"
    unfolding applyBestLayout_def getSuggestedLayout_three Let_def
    by (simp add: calculateCircularLayout_three resolveNodeOverlaps_three)
  show "distinct (map node_position
      [\<lparr>node_id = a, node_label = la, node_position = \<lparr>pos_x = 340, pos_y = 120\<rparr>, node_selected = sa\<rparr>,
       \<lparr>node_id = b, node_label = lb, node_position = \<lparr>pos_x = 470, pos_y = 345\<rparr>, node_selected = sb\<rparr>,
       \<lparr>node_id = c, node_label = lc, node_position = \<lparr>pos_x = 210, pos_y = 345\<rparr>, node_selected = sc\<rparr>])"
    by simp
  show "no_overlaps
      [\<lparr>node_id = a, node_label = la, node_position = \<lparr>pos_x = 340, pos_y = 120\<rparr>, node_selected = sa\<rparr>,
       \<lparr>node_id = b, node_label = lb, node_position = \<lparr>pos_x = 470, pos_y = 345\<rparr>, node_selected = sb\<rparr>,
       \<lparr>node_id = c, node_label = lc, node_position = \<lparr>pos_x = 210, pos_y = 345\<rparr>, node_selected = sc\<rparr>]"
    by (simp add: node_rect_def doRectsOverlap_def NODE_WIDTH_def NODE_HEIGHT_def)
qed

theorem applyBestLayout_chain_of_three_witness:
  "getSuggestedLayout
      [\<lparr>node_id = ''A'', node_label = ''a'', node_position = \<lparr>pos_x = 0, pos_y = 0\<rparr>, node_selected = False\<rparr>,
       \<lparr>node_id = ''B'', node_label = ''b'', node_position = \<lparr>pos_x = 0, pos_y = 0\<rparr>, node_selected = False\<rparr>,
       \<lparr>node_id = ''C'', node_label = ''c'', node_position = \<lparr>pos_x = 0, pos_y = 0\<rparr>, node_selected = False\<rparr>]
      [\<lparr>edge_id = ''edge-1'', edge_source = ''A'', edge_target = ''B'', edge_selected = False\<rparr>,
       \<lparr>edge_id = ''edge-2'', edge_source = ''B'', edge_target = ''C'', edge_selected = False\<rparr>] = Circular
   \<and> applyBestLayout 0 (\<lambda>nodes edges layoutOptions. None) (\<lambda>k. 0)
      [\<lparr>node_id = ''A'', node_label = ''a'', node_position = \<lparr>pos_x = 0, pos_y = 0\<rparr>, node_selected = False\<rparr>,
       \<lparr>node_id = ''B'', node_label = ''b'', node_position = \<lparr>pos_x = 0, pos_y = 0\<rparr>, node_selected = False\<rparr>,
       \<lparr>node_id = ''C'', node_label = ''c'', node_position = \<lparr>pos_x = 0, pos_y = 0\<rparr>, node_selected = False\<rparr>]
      [\<lparr>edge_id = ''edge-1'', edge_source = ''A'', edge_target = ''B'', edge_selected = False\<rparr>,
       \<lparr>edge_id = ''edge-2'', edge_source = ''B'', edge_target = ''C'', edge_selected = False\<rparr>] None
     = Some
      [\<lparr>node_id = ''A'', node_label = ''a'', node_position = \<lparr>pos_x = 340, pos_y = 120\<rparr>, node_selected = False\<rparr>,
       \<lparr>node_id = ''B'', node_label = ''b'', node_position = \<lparr>pos_x = 470, pos_y = 345\<rparr>, node_selected = False\<rparr>,
       \<lparr>node_id = ''C'', node_label = ''c'', node_position = \<lparr>pos_x = 210, pos_y = 345\<rparr>, node_selected = False\<rparr>]"
  using applyBestLayout_chain_of_three[of "''A''" "''B''" "''C''"
          "''a''" "\<lparr>pos_x = 0, pos_y = 0\<rparr>" False
          "''b''" "\<lparr>pos_x = 0, pos_y = 0\<rparr>" False "''c''" "\<lparr>pos_x = 0, pos_y = 0\<rparr>" False
          "''edge-1''" False "''edge-2''" False 0 "\<lambda>nodes edges layoutOptions. None" "\<lambda>k. 0" None]
  by simp

text \<open>C1 as stated fails: the tree layout is not the one chosen for this graph.\<close>

theorem getSuggestedLayout_chain_of_three_counterexample:
  "getSuggestedLayout
      [\<lparr>node_id = ''A'', node_label = ''a'', node_position = \<lparr>pos_x = 0, pos_y = 0\<rparr>, node_selected = False\<rparr>,
       \<lparr>node_id = ''B'', node_label = ''b'', node_position = \<lparr>pos_x = 0, pos_y = 0\<rparr>, node_selected = False\<rparr>,
       \<lparr>node_id = ''C'', node_label = ''c'', node_position = \<lparr>pos_x = 0, pos_y = 0\<rparr>, node_selected = False\<rparr>]
      [\<lparr>edge_id = ''edge-1'', edge_source = ''A'', edge_target = ''B'', edge_selected = False\<rparr>,
       \<lparr>edge_id = ''edge-2'', edge_source = ''B'', edge_target = ''C'', edge_selected = False\<rparr>] \<noteq> Tree"
  by (simp add: getSuggestedLayout_three)

section \<open>Hierarchical layout: the trailing level\<close>

lemma mark_level_fields:
  "levels (mark_level cl st) = levels st @ [cl]"
  "levelIndex (mark_level cl st) = levelIndex st"
  "nodeToLevel (mark_level cl st) i = (if i \<in> set cl then Some (levelIndex st) else nodeToLevel st i)"
proof -
  let ?f = "\<lambda>nodeId st. st\<lparr>visited := insert nodeId (visited st),
                            nodeToLevel := (nodeToLevel st)(nodeId \<mapsto> levelIndex st)\<rparr>"
  have f: "levels (fold ?f cl s) = levels s \<and> levelIndex (fold ?f cl s) = levelIndex s
         \<and> nodeToLevel (fold ?f cl s) i = (if i \<in> set cl then Some (levelIndex s) else nodeToLevel s i)"
    for s
    by (induction cl arbitrary: s) auto
  show "levels (mark_level cl st) = levels st @ [cl]"
    "levelIndex (mark_level cl st) = levelIndex st"
    "nodeToLevel (mark_level cl st) i = (if i \<in> set cl then Some (levelIndex st) else nodeToLevel st i)"
    unfolding mark_level_def by (simp_all add: f)
qed

lemma level_loop_inv: "level_inv st \<Longrightarrow> level_inv (level_loop outgoing incoming currentLevel st)"
proof (induction outgoing incoming currentLevel st rule: level_loop.induct)
  case (1 outgoing incoming currentLevel st)
  show ?case
  proof (cases "length currentLevel > 0")
    case True
    let ?st1 = "mark_level currentLevel st"
    let ?st2 = "?st1\<lparr>levelIndex := levelIndex ?st1 + 1\<rparr>"
    have "level_inv ?st2"
      using 1(2) unfolding level_inv_def
      by (auto simp: mark_level_fields visited_mark_level dom_def less_Suc_eq split: if_splits)
    from 1(1)[OF True refl refl this] True show ?thesis
      by (subst level_loop.simps) (simp add: Let_def)
  next
    case False
    then show ?thesis using 1(2) by (subst level_loop.simps) simp
  qed
qed

lemma reached_inv: "level_inv (reached nodes edges)"
  unfolding reached_def by (rule level_loop_inv) (simp add: level_inv_def)

lemma hierarchical_levels_fields:
  assumes "unvisitedNodes = filter (\<lambda>node. node_id node \<notin> visited (reached nodes edges)) nodes"
    and "unvisitedNodes \<noteq> []"
  shows "levels (hierarchical_levels nodes edges)
           = levels (reached nodes edges) @ [map node_id unvisitedNodes]"
    and "nodeToLevel (hierarchical_levels nodes edges) i
           = (if i \<in> node_id ` set unvisitedNodes then Some (levelIndex (reached nodes edges))
              else nodeToLevel (reached nodes edges) i)"
proof -
  let ?f = "\<lambda>node st. st\<lparr>nodeToLevel := (nodeToLevel st)(node_id node \<mapsto> levelIndex st)\<rparr>"
  have f: "levels (fold ?f us s) = levels s
         \<and> nodeToLevel (fold ?f us s) i
             = (if i \<in> node_id ` set us then Some (levelIndex s) else nodeToLevel s i)" for us s
    by (induction us arbitrary: s) auto
  have h: "hierarchical_levels nodes edges =
     fold ?f unvisitedNodes
       ((reached nodes edges)\<lparr>levels := levels (reached nodes edges) @ [map node_id unvisitedNodes]\<rparr>)"
    using assms by (simp add: hierarchical_levels_def reached_def Let_def)
  show "levels (hierarchical_levels nodes edges)
           = levels (reached nodes edges) @ [map node_id unvisitedNodes]"
    by (simp add: h f)
  show "nodeToLevel (hierarchical_levels nodes edges) i
           = (if i \<in> node_id ` set unvisitedNodes then Some (levelIndex (reached nodes edges))
              else nodeToLevel (reached nodes edges) i)"
    by (simp add: h f)
qed

lemma hierarchical_levels_all_visited:
  "filter (\<lambda>node. node_id node \<notin> visited (reached nodes edges)) nodes = [] \<Longrightarrow>
     hierarchical_levels nodes edges = reached nodes edges"
  by (simp add: hierarchical_levels_def reached_def Let_def)

lemma map_position_nth:
  "k < length nodes \<Longrightarrow> map_position f nodes ! k = (nodes ! k)\<lparr>node_position := f (nodes ! k) k\<rparr>"
  by (simp add: map_position_def enumerate_eq_zip)

lemma level_position_slot:
  "level_position st levelSpacing nodeSpacing node =
     (let level = (case nodeToLevel st (node_id node) of Some l \<Rightarrow> l | None \<Rightarrow> 0)
      in level_slot level (if level < length (levels st) then levels st ! level else [])
           levelSpacing nodeSpacing (node_id node))"
  by (simp add: level_position_def level_slot_def Let_def)

text \<open>
  C7 (as amended). When the graph has at least one in-degree-zero node, every node the
  level expansion never reached is placed in one trailing level: its level number is the
  number of reached levels and the level's members are the unreached nodes in input
  order; every reached node is placed in a reached level, whose number is smaller. When
  the graph has no in-degree-zero node, the function returns the grid layout of the
  nodes, on \<open>\<lceil>sqrt n\<rceil>\<close> columns for \<open>n\<close> nodes.
\<close>

theorem calculateHierarchicalLayout_trailing_level:
  "(rootNodes nodes edges \<noteq> [] \<longrightarrow>
      (\<forall>k < length nodes.
         (node_id (nodes ! k) \<notin> visited (reached nodes edges) \<longrightarrow>
            node_position (calculateHierarchicalLayout nodes edges levelSpacing nodeSpacing ! k)
              = level_slot (length (levels (reached nodes edges)))
                  (map node_id (filter (\<lambda>node. node_id node \<notin> visited (reached nodes edges)) nodes))
                  (case levelSpacing of Some v \<Rightarrow> v | None \<Rightarrow> 180)
                  (case nodeSpacing of Some v \<Rightarrow> v | None \<Rightarrow> 160)
                  (node_id (nodes ! k)))
       \<and> (node_id (nodes ! k) \<in> visited (reached nodes edges) \<longrightarrow>
            (\<exists>l < length (levels (reached nodes edges)).
               node_position (calculateHierarchicalLayout nodes edges levelSpacing nodeSpacing ! k)
                 = level_slot l (levels (reached nodes edges) ! l)
                     (case levelSpacing of Some v \<Rightarrow> v | None \<Rightarrow> 180)
                     (case nodeSpacing of Some v \<Rightarrow> v | None \<Rightarrow> 160)
                     (node_id (nodes ! k))))))
   \<and> (rootNodes nodes edges = [] \<longrightarrow>
        calculateHierarchicalLayout nodes edges levelSpacing nodeSpacing
          = calculateGridLayout nodes (Some (nat \<lceil>sqrt (real (length nodes))\<rceil>)) None)"
proof -
  let ?st = "reached nodes edges"
  let ?un = "filter (\<lambda>node. node_id node \<notin> visited ?st) nodes"
  let ?LS = "case levelSpacing of Some v \<Rightarrow> v | None \<Rightarrow> 180"
  let ?NS = "case nodeSpacing of Some v \<Rightarrow> v | None \<Rightarrow> 160"
  have inv: "level_inv ?st" by (rule reached_inv)
  have out: "node_position (calculateHierarchicalLayout nodes edges levelSpacing nodeSpacing ! k)
      = level_position (hierarchical_levels nodes edges) ?LS ?NS (nodes ! k)"
    if "rootNodes nodes edges \<noteq> []" "k < length nodes" for k
  proof -
    have "length nodes \<noteq> 0" using that(2) by auto
    then show ?thesis
      using that by (simp add: calculateHierarchicalLayout_def Let_def map_position_nth)
  qed
  show ?thesis
  proof (intro conjI impI allI)
    assume "rootNodes nodes edges = []"
    then show "calculateHierarchicalLayout nodes edges levelSpacing nodeSpacing
            = calculateGridLayout nodes (Some (nat \<lceil>sqrt (real (length nodes))\<rceil>)) None"
      by (simp add: calculateHierarchicalLayout_def calculateGridLayout_def Let_def)
  next
    fix k
    assume root: "rootNodes nodes edges \<noteq> []" and k: "k < length nodes"
      and nv: "node_id (nodes ! k) \<notin> visited ?st"
    from nv have mem: "nodes ! k \<in> set ?un" using k by simp
    then have un: "?un \<noteq> []" by (metis empty_iff list.set(1))
    have lv: "nodeToLevel (hierarchical_levels nodes edges) (node_id (nodes ! k))
                = Some (length (levels ?st))"
      using hierarchical_levels_fields(2)[OF refl un] mem inv by (auto simp: level_inv_def)
    show "node_position (calculateHierarchicalLayout nodes edges levelSpacing nodeSpacing ! k)
              = level_slot (length (levels ?st)) (map node_id ?un) ?LS ?NS (node_id (nodes ! k))"
      unfolding out[OF root k] level_position_slot
      by (simp add: lv hierarchical_levels_fields(1)[OF refl un])
  next
    fix k
    assume root: "rootNodes nodes edges \<noteq> []" and k: "k < length nodes"
      and v: "node_id (nodes ! k) \<in> visited ?st"
    from v have "node_id (nodes ! k) \<in> dom (nodeToLevel ?st)"
      using inv by (simp add: level_inv_def)
    then obtain l where l0: "nodeToLevel ?st (node_id (nodes ! k)) = Some l" by blast
    then have "l < length (levels ?st)" using inv by (auto simp: level_inv_def)
    with l0 have l: "nodeToLevel ?st (node_id (nodes ! k)) = Some l" "l < length (levels ?st)"
      by simp_all
    have notun: "node_id (nodes ! k) \<notin> node_id ` set ?un" using v by auto
    have "level_position (hierarchical_levels nodes edges) ?LS ?NS (nodes ! k)
            = level_slot l (levels ?st ! l) ?LS ?NS (node_id (nodes ! k))"
    proof (cases "?un = []")
      case True
      then show ?thesis
        unfolding level_position_slot using l
        by (simp add: hierarchical_levels_all_visited)
    next
      case False
      show ?thesis
        unfolding level_position_slot using l notun
        by (simp add: hierarchical_levels_fields[OF refl False] nth_append)
    qed
    then show "\<exists>l < length (levels ?st).
               node_position (calculateHierarchicalLayout nodes edges levelSpacing nodeSpacing ! k)
                 = level_slot l (levels ?st ! l) ?LS ?NS (node_id (nodes ! k))"
      using l(2) out[OF root k] by auto
  qed
qed

lemma reached_rooted_island:
  "reached
     [\<lparr>node_id = ''A'', node_label = ''a'', node_position = \<lparr>pos_x = 0, pos_y = 0\<rparr>, node_selected = False\<rparr>,
      \<lparr>node_id = ''B'', node_label = ''b'', node_position = \<lparr>pos_x = 0, pos_y = 0\<rparr>, node_selected = False\<rparr>,
      \<lparr>node_id = ''C'', node_label = ''c'', node_position = \<lparr>pos_x = 0, pos_y = 0\<rparr>, node_selected = False\<rparr>]
     [\<lparr>edge_id = ''edge-1'', edge_source = ''B'', edge_target = ''C'', edge_selected = False\<rparr>,
      \<lparr>edge_id = ''edge-2'', edge_source = ''C'', edge_target = ''B'', edge_selected = False\<rparr>]
   = \<lparr>levels = [[''A'']], visited = {''A''}, nodeToLevel = [''A'' \<mapsto> 0], levelIndex = 1\<rparr>"
  by (simp add: reached_def rootNodes_def incomingEdges_def outgoingEdges_def empty_adjacency_def
        push_if_present_def graph_get_def level_loop.simps mark_level_def next_level_def)

lemma rootNodes_three_cycle:
  "rootNodes
     [\<lparr>node_id = ''A'', node_label = ''a'', node_position = \<lparr>pos_x = 0, pos_y = 0\<rparr>, node_selected = False\<rparr>,
      \<lparr>node_id = ''B'', node_label = ''b'', node_position = \<lparr>pos_x = 0, pos_y = 0\<rparr>, node_selected = False\<rparr>,
      \<lparr>node_id = ''C'', node_label = ''c'', node_position = \<lparr>pos_x = 0, pos_y = 0\<rparr>, node_selected = False\<rparr>]
     [\<lparr>edge_id = ''edge-1'', edge_source = ''A'', edge_target = ''B'', edge_selected = False\<rparr>,
      \<lparr>edge_id = ''edge-2'', edge_source = ''B'', edge_target = ''C'', edge_selected = False\<rparr>,
      \<lparr>edge_id = ''edge-3'', edge_source = ''C'', edge_target = ''A'', edge_selected = False\<rparr>] = []"
  by (simp add: rootNodes_def incomingEdges_def empty_adjacency_def push_if_present_def graph_get_def)

lemma reached_three_cycle:
  "reached
     [\<lparr>node_id = ''A'', node_label = ''a'', node_position = \<lparr>pos_x = 0, pos_y = 0\<rparr>, node_selected = False\<rparr>,
      \<lparr>node_id = ''B'', node_label = ''b'', node_position = \<lparr>pos_x = 0, pos_y = 0\<rparr>, node_selected = False\<rparr>,
      \<lparr>node_id = ''C'', node_label = ''c'', node_position = \<lparr>pos_x = 0, pos_y = 0\<rparr>, node_selected = False\<rparr>]
     [\<lparr>edge_id = ''edge-1'', edge_source = ''A'', edge_target = ''B'', edge_selected = False\<rparr>,
      \<lparr>edge_id = ''edge-2'', edge_source = ''B'', edge_target = ''C'', edge_selected = False\<rparr>,
      \<lparr>edge_id = ''edge-3'', edge_source = ''C'', edge_target = ''A'', edge_selected = False\<rparr>]
   = \<lparr>levels = [], visited = {}, nodeToLevel = Map.empty, levelIndex = 0\<rparr>"
  unfolding reached_def rootNodes_three_cycle by (simp add: level_loop.simps)

lemma ceiling_sqrt3: "\<lceil>sqrt 3\<rceil> = 2"
proof (rule ceiling_unique)
  have "(1::real)\<^sup>2 < 3" by simp
  then have "1 < sqrt 3" by (rule real_less_rsqrt)
  then show "of_int 2 - 1 < sqrt 3" by simp
  have "sqrt 3 \<le> 2" by (intro real_le_lsqrt) simp_all
  then show "sqrt 3 \<le> of_int 2" by simp
qed

lemma calculateGridLayout_three:
  "calculateGridLayout
     [\<lparr>node_id = ''A'', node_label = ''a'', node_position = \<lparr>pos_x = 0, pos_y = 0\<rparr>, node_selected = False\<rparr>,
      \<lparr>node_id = ''B'', node_label = ''b'', node_position = \<lparr>pos_x = 0, pos_y = 0\<rparr>, node_selected = False\<rparr>,
      \<lparr>node_id = ''C'', node_label = ''c'', node_position = \<lparr>pos_x = 0, pos_y = 0\<rparr>, node_selected = False\<rparr>]
     (Some 2) None
   = [\<lparr>node_id = ''A'', node_label = ''a'', node_position = \<lparr>pos_x = 100, pos_y = 100\<rparr>, node_selected = False\<rparr>,
      \<lparr>node_id = ''B'', node_label = ''b'', node_position = \<lparr>pos_x = 300, pos_y = 100\<rparr>, node_selected = False\<rparr>,
      \<lparr>node_id = ''C'', node_label = ''c'', node_position = \<lparr>pos_x = 100, pos_y = 240\<rparr>, node_selected = False\<rparr>]"
  by (simp add: calculateGridLayout_def map_position_def)

theorem calculateHierarchicalLayout_trailing_level_witness:
  "rootNodes
     [\<lparr>node_id = ''A'', node_label = ''a'', node_position = \<lparr>pos_x = 0, pos_y = 0\<rparr>, node_selected = False\<rparr>,
      \<lparr>node_id = ''B'', node_label = ''b'', node_position = \<lparr>pos_x = 0, pos_y = 0\<rparr>, node_selected = False\<rparr>,
      \<lparr>node_id = ''C'', node_label = ''c'', node_position = \<lparr>pos_x = 0, pos_y = 0\<rparr>, node_selected = False\<rparr>]
     [\<lparr>edge_id = ''edge-1'', edge_source = ''B'', edge_target = ''C'', edge_selected = False\<rparr>,
      \<lparr>edge_id = ''edge-2'', edge_source = ''C'', edge_target = ''B'', edge_selected = False\<rparr>] \<noteq> []
   \<and> ''B'' \<notin> visited (reached
     [\<lparr>node_id = ''A'', node_label = ''a'', node_position = \<lparr>pos_x = 0, pos_y = 0\<rparr>, node_selected = False\<rparr>,
      \<lparr>node_id = ''B'', node_label = ''b'', node_position = \<lparr>pos_x = 0, pos_y = 0\<rparr>, node_selected = False\<rparr>,
      \<lparr>node_id = ''C'', node_label = ''c'', node_position = \<lparr>pos_x = 0, pos_y = 0\<rparr>, node_selected = False\<rparr>]
     [\<lparr>edge_id = ''edge-1'', edge_source = ''B'', edge_target = ''C'', edge_selected = False\<rparr>,
      \<lparr>edge_id = ''edge-2'', edge_source = ''C'', edge_target = ''B'', edge_selected = False\<rparr>])
   \<and> node_position (calculateHierarchicalLayout
     [\<lparr>node_id = ''A'', node_label = ''a'', node_position = \<lparr>pos_x = 0, pos_y = 0\<rparr>, node_selected = False\<rparr>,
      \<lparr>node_id = ''B'', node_label = ''b'', node_position = \<lparr>pos_x = 0, pos_y = 0\<rparr>, node_selected = False\<rparr>,
      \<lparr>node_id = ''C'', node_label = ''c'', node_position = \<lparr>pos_x = 0, pos_y = 0\<rparr>, node_selected = False\<rparr>]
     [\<lparr>edge_id = ''edge-1'', edge_source = ''B'', edge_target = ''C'', edge_selected = False\<rparr>,
      \<lparr>edge_id = ''edge-2'', edge_source = ''C'', edge_target = ''B'', edge_selected = False\<rparr>]
     None None ! 1) = \<lparr>pos_x = 120, pos_y = 260\<rparr>
   \<and> rootNodes
     [\<lparr>node_id = ''A'', node_label = ''a'', node_position = \<lparr>pos_x = 0, pos_y = 0\<rparr>, node_selected = False\<rparr>,
      \<lparr>node_id = ''B'', node_label = ''b'', node_position = \<lparr>pos_x = 0, pos_y = 0\<rparr>, node_selected = False\<rparr>,
      \<lparr>node_id = ''C'', node_label = ''c'', node_position = \<lparr>pos_x = 0, pos_y = 0\<rparr>, node_selected = False\<rparr>]
     [\<lparr>edge_id = ''edge-1'', edge_source = ''A'', edge_target = ''B'', edge_selected = False\<rparr>,
      \<lparr>edge_id = ''edge-2'', edge_source = ''B'', edge_target = ''C'', edge_selected = False\<rparr>,
      \<lparr>edge_id = ''edge-3'', edge_source = ''C'', edge_target = ''A'', edge_selected = False\<rparr>] = []
   \<and> calculateHierarchicalLayout
     [\<lparr>node_id = ''A'', node_label = ''a'', node_position = \<lparr>pos_x = 0, pos_y = 0\<rparr>, node_selected = False\<rparr>,
      \<lparr>node_id = ''B'', node_label = ''b'', node_position = \<lparr>pos_x = 0, pos_y = 0\<rparr>, node_selected = False\<rparr>,
      \<lparr>node_id = ''C'', node_label = ''c'', node_position = \<lparr>pos_x = 0, pos_y = 0\<rparr>, node_selected = False\<rparr>]
     [\<lparr>edge_id = ''edge-1'', edge_source = ''A'', edge_target = ''B'', edge_selected = False\<rparr>,
      \<lparr>edge_id = ''edge-2'', edge_source = ''B'', edge_target = ''C'', edge_selected = False\<rparr>,
      \<lparr>edge_id = ''edge-3'', edge_source = ''C'', edge_target = ''A'', edge_selected = False\<rparr>]
     None None
   = [\<lparr>node_id = ''A'', node_label = ''a'', node_position = \<lparr>pos_x = 100, pos_y = 100\<rparr>, node_selected = False\<rparr>,
      \<lparr>node_id = ''B'', node_label = ''b'', node_position = \<lparr>pos_x = 300, pos_y = 100\<rparr>, node_selected = False\<rparr>,
      \<lparr>node_id = ''C'', node_label = ''c'', node_position = \<lparr>pos_x = 100, pos_y = 240\<rparr>, node_selected = False\<rparr>]"
  (is "rootNodes ?ns ?es \<noteq> [] \<and> _ \<and> _ \<and> rootNodes _ ?cyc = [] \<and> _")
proof -
  have r: "rootNodes ?ns ?es \<noteq> []"
    by (simp add: rootNodes_def incomingEdges_def empty_adjacency_def push_if_present_def graph_get_def)
  have r260: "js_round 260 = 260" "js_round 120 = 120"
    using js_round_of_int[of 260] js_round_of_int[of 120] by simp_all
  have island: "''B'' \<notin> visited (reached ?ns ?es)
      \<and> node_position (calculateHierarchicalLayout ?ns ?es None None ! 1) = \<lparr>pos_x = 120, pos_y = 260\<rparr>"
    using calculateHierarchicalLayout_trailing_level[of ?ns ?es None None] r
    by (simp add: reached_rooted_island level_slot_def indexOf_def r260)
  have cycle: "calculateHierarchicalLayout ?ns ?cyc None None
      = calculateGridLayout ?ns (Some 2) None"
    using calculateHierarchicalLayout_trailing_level[of ?ns ?cyc None None] rootNodes_three_cycle
    by (simp add: ceiling_sqrt3)
  show ?thesis
    using r island rootNodes_three_cycle cycle calculateGridLayout_three by simp
qed

text \<open>
  C7 as stated fails on a graph with no in-degree-zero node: for the cycle through three
  nodes no node is reached, and the nodes are laid out on a grid of two columns, in two
  rows, not in one trailing level (which would put \<open>C\<close> at \<open>(360, 80)\<close>).
\<close>

theorem calculateHierarchicalLayout_no_root_counterexample:
  "''C'' \<notin> visited (reached
     [\<lparr>node_id = ''A'', node_label = ''a'', node_position = \<lparr>pos_x = 0, pos_y = 0\<rparr>, node_selected = False\<rparr>,
      \<lparr>node_id = ''B'', node_label = ''b'', node_position = \<lparr>pos_x = 0, pos_y = 0\<rparr>, node_selected = False\<rparr>,
      \<lparr>node_id = ''C'', node_label = ''c'', node_position = \<lparr>pos_x = 0, pos_y = 0\<rparr>, node_selected = False\<rparr>]
     [\<lparr>edge_id = ''edge-1'', edge_source = ''A'', edge_target = ''B'', edge_selected = False\<rparr>,
      \<lparr>edge_id = ''edge-2'', edge_source = ''B'', edge_target = ''C'', edge_selected = False\<rparr>,
      \<lparr>edge_id = ''edge-3'', edge_source = ''C'', edge_target = ''A'', edge_selected = False\<rparr>])
   \<and> level_slot
         (length (levels (reached
     [\<lparr>node_id = ''A'', node_label = ''a'', node_position = \<lparr>pos_x = 0, pos_y = 0\<rparr>, node_selected = False\<rparr>,
      \<lparr>node_id = ''B'', node_label = ''b'', node_position = \<lparr>pos_x = 0, pos_y = 0\<rparr>, node_selected = False\<rparr>,
      \<lparr>node_id = ''C'', node_label = ''c'', node_position = \<lparr>pos_x = 0, pos_y = 0\<rparr>, node_selected = False\<rparr>]
     [\<lparr>edge_id = ''edge-1'', edge_source = ''A'', edge_target = ''B'', edge_selected = False\<rparr>,
      \<lparr>edge_id = ''edge-2'', edge_source = ''B'', edge_target = ''C'', edge_selected = False\<rparr>,
      \<lparr>edge_id = ''edge-3'', edge_source = ''C'', edge_target = ''A'', edge_selected = False\<rparr>])))
         (map node_id (filter (\<lambda>node. node_id node \<notin> visited (reached
     [\<lparr>node_id = ''A'', node_label = ''a'', node_position = \<lparr>pos_x = 0, pos_y = 0\<rparr>, node_selected = False\<rparr>,
      \<lparr>node_id = ''B'', node_label = ''b'', node_position = \<lparr>pos_x = 0, pos_y = 0\<rparr>, node_selected = False\<rparr>,
      \<lparr>node_id = ''C'', node_label = ''c'', node_position = \<lparr>pos_x = 0, pos_y = 0\<rparr>, node_selected = False\<rparr>]
     [\<lparr>edge_id = ''edge-1'', edge_source = ''A'', edge_target = ''B'', edge_selected = False\<rparr>,
      \<lparr>edge_id = ''edge-2'', edge_source = ''B'', edge_target = ''C'', edge_selected = False\<rparr>,
      \<lparr>edge_id = ''edge-3'', edge_source = ''C'', edge_target = ''A'', edge_selected = False\<rparr>]))
     [\<lparr>node_id = ''A'', node_label = ''a'', node_position = \<lparr>pos_x = 0, pos_y = 0\<rparr>, node_selected = False\<rparr>,
      \<lparr>node_id = ''B'', node_label = ''b'', node_position = \<lparr>pos_x = 0, pos_y = 0\<rparr>, node_selected = False\<rparr>,
      \<lparr>node_id = ''C'', node_label = ''c'', node_position = \<lparr>pos_x = 0, pos_y = 0\<rparr>, node_selected = False\<rparr>]))
         180 160 ''C'' = \<lparr>pos_x = 360, pos_y = 80\<rparr>
   \<and> map node_position (calculateHierarchicalLayout
     [\<lparr>node_id = ''A'', node_label = ''a'', node_position = \<lparr>pos_x = 0, pos_y = 0\<rparr>, node_selected = False\<rparr>,
      \<lparr>node_id = ''B'', node_label = ''b'', node_position = \<lparr>pos_x = 0, pos_y = 0\<rparr>, node_selected = False\<rparr>,
      \<lparr>node_id = ''C'', node_label = ''c'', node_position = \<lparr>pos_x = 0, pos_y = 0\<rparr>, node_selected = False\<rparr>]
     [\<lparr>edge_id = ''edge-1'', edge_source = ''A'', edge_target = ''B'', edge_selected = False\<rparr>,
      \<lparr>edge_id = ''edge-2'', edge_source = ''B'', edge_target = ''C'', edge_selected = False\<rparr>,
      \<lparr>edge_id = ''edge-3'', edge_source = ''C'', edge_target = ''A'', edge_selected = False\<rparr>]
     None None)
     = [\<lparr>pos_x = 100, pos_y = 100\<rparr>, \<lparr>pos_x = 300, pos_y = 100\<rparr>, \<lparr>pos_x = 100, pos_y = 240\<rparr>]"
  (is "_ \<notin> visited (reached ?ns ?es) \<and> _ \<and> _")
proof -
  have g: "calculateHierarchicalLayout ?ns ?es None None = calculateGridLayout ?ns (Some 2) None"
    using rootNodes_three_cycle by (simp add: calculateHierarchicalLayout_def ceiling_sqrt3)
  have r80: "js_round 80 = 80" "js_round 360 = 360"
    using js_round_of_int[of 80] js_round_of_int[of 360] by simp_all
  show ?thesis
    unfolding reached_three_cycle g calculateGridLayout_three
    by (simp add: level_slot_def indexOf_def r80)
qed

section \<open>Layout engine: only positions change\<close>

lemma node_frame_position [simp]: "node_frame (node\<lparr>node_position := p\<rparr>) = node_frame node"
  by (simp add: node_frame_def)

lemma map_position_frame: "map node_frame (map_position f nodes) = map node_frame nodes"
proof -
  have "map node_frame (map (\<lambda>(index, node). node\<lparr>node_position := f node index\<rparr>) (List.enumerate k nodes))
          = map node_frame nodes" for k
    by (induction nodes arbitrary: k) simp_all
  then show ?thesis by (simp add: map_position_def)
qed

lemma calculateGridLayout_frame:
  "map node_frame (calculateGridLayout nodes columns spacing) = map node_frame nodes"
  by (simp add: calculateGridLayout_def Let_def map_position_frame)

lemma calculateCircularLayout_frame:
  "map node_frame (calculateCircularLayout nodes radius center) = map node_frame nodes"
proof (cases "length nodes = 1")
  case True
  then obtain node where "nodes = [node]" by (cases nodes) auto
  then show ?thesis by (simp add: calculateCircularLayout_def Let_def)
next
  case False
  then show ?thesis by (simp add: calculateCircularLayout_def Let_def map_position_frame)
qed

lemma calculateHierarchicalLayout_frame:
  "map node_frame (calculateHierarchicalLayout nodes edges levelSpacing nodeSpacing)
     = map node_frame nodes"
  by (simp add: calculateHierarchicalLayout_def Let_def map_position_frame calculateGridLayout_frame)

lemma calculateTreeLayout_frame:
  "calculateTreeLayout depth nodes edges direction = Some out \<Longrightarrow>
     map node_frame out = map node_frame nodes"
  by (auto simp: calculateTreeLayout_def Let_def map_position_frame
        calculateHierarchicalLayout_frame split: if_splits option.splits)

lemma calculateForceLayout_frame:
  "map node_frame (calculateForceLayout rnd nodes edges iterations canvasSize) = map node_frame nodes"
  by (simp add: calculateForceLayout_def Let_def map_position_frame)

lemma applyDagreLayout_frame:
  "map node_frame (applyDagreLayout dagre nodes edges layoutOptions) = map node_frame nodes"
  by (simp add: applyDagreLayout_def map_position_frame calculateHierarchicalLayout_frame
        split: option.splits)

lemma update_same_frame:
  "map node_frame (rs[i := (rs ! i)\<lparr>node_position := p\<rparr>]) = map node_frame rs"
proof (cases "i < length rs")
  case True
  then show ?thesis by (simp add: map_update list_update_same_conv)
next
  case False
  then show ?thesis by (simp add: list_update_beyond)
qed

lemma separate_frame: "map node_frame (fst (separate minDistance ij st)) = map node_frame (fst st)"
proof -
  have two: "map node_frame (rs[i := (rs ! i)\<lparr>node_position := p\<rparr>, j := (rs ! j)\<lparr>node_position := q\<rparr>])
               = map node_frame rs" for rs i j p q
  proof -
    have "map node_frame (rs[i := (rs ! i)\<lparr>node_position := p\<rparr>, j := (rs ! j)\<lparr>node_position := q\<rparr>])
            = (map node_frame (rs[i := (rs ! i)\<lparr>node_position := p\<rparr>]))[j := node_frame (rs ! j)]"
      by (simp add: map_update)
    also have "\<dots> = (map node_frame rs)[j := node_frame (rs ! j)]"
      by (simp only: update_same_frame)
    also have "\<dots> = map node_frame rs"
      by (cases "j < length rs") (simp_all add: list_update_same_conv list_update_beyond)
    finally show ?thesis .
  qed
  show ?thesis by (simp add: separate_def Let_def two)
qed

lemma fold_separate_frame:
  "map node_frame (fst (fold (separate minDistance) pairs st)) = map node_frame (fst st)"
  by (induction pairs arbitrary: st) (simp_all add: separate_frame)

lemma resolve_loop_frame:
  "map node_frame (resolve_loop minDistance iteration rs) = map node_frame rs"
proof (induction minDistance iteration rs rule: resolve_loop.induct)
  case (1 minDistance iteration resolvedNodes)
  obtain rs' overlapped where f: "fold (separate minDistance) (index_pairs (length resolvedNodes))
                (resolvedNodes, False) = (rs', overlapped)"
    by (cases "fold (separate minDistance) (index_pairs (length resolvedNodes)) (resolvedNodes, False)")
  have fr: "map node_frame rs' = map node_frame resolvedNodes"
    using fold_separate_frame[of minDistance "index_pairs (length resolvedNodes)" "(resolvedNodes, False)"] f
    by simp
  show ?case
  proof (cases "iteration < 15")
    case True
    show ?thesis
    proof (cases overlapped)
      case True
      from 1[OF \<open>iteration < 15\<close> f[symmetric]] True have "map node_frame (resolve_loop minDistance (iteration + 1) rs') = map node_frame rs'"
        by simp
      then show ?thesis using \<open>iteration < 15\<close> f True fr by (subst resolve_loop.simps) simp
    next
      case False
      then show ?thesis using \<open>iteration < 15\<close> f fr by (subst resolve_loop.simps) simp
    qed
  next
    case False
    then show ?thesis by (subst resolve_loop.simps) simp
  qed
qed

lemma resolveNodeOverlaps_frame:
  "map node_frame (resolveNodeOverlaps nodes minSpacing) = map node_frame nodes"
  by (simp add: resolveNodeOverlaps_def Let_def resolve_loop_frame)

lemma applyBestLayout_frame:
  "applyBestLayout depth dagre rnd nodes edges canvasSize = Some out \<Longrightarrow>
     map node_frame out = map node_frame nodes"
  by (cases "getSuggestedLayout nodes edges")
     (auto simp: applyBestLayout_def Let_def resolveNodeOverlaps_frame calculateGridLayout_frame
        calculateCircularLayout_frame calculateHierarchicalLayout_frame calculateForceLayout_frame
        applyDagreLayout_frame dest: calculateTreeLayout_frame)

subsection \<open>Adjacency and in-degree counts\<close>

lemma map_of_empty_adjacency:
  "map_of (empty_adjacency nodes) k = (if k \<in> node_id ` set nodes then Some [] else None)"
proof -
  have f: "map_of (fold (\<lambda>node m. AList.update (node_id node) [] m) nodes m0) k
          = (if k \<in> node_id ` set nodes then Some [] else map_of m0 k)" for m0
    by (induction nodes arbitrary: m0) (auto simp: update_conv')
  show ?thesis unfolding empty_adjacency_def f by simp
qed

lemma map_of_push_if_present:
  "map_of (push_if_present k v m) k'
     = map_option (\<lambda>arr. if k' = k then arr @ [v] else arr) (map_of m k')"
  by (cases "map_of m k'") (auto simp: push_if_present_def update_conv' split: option.splits)

lemma map_of_fold_push:
  "map_of (fold (\<lambda>edge m. push_if_present (key edge) (val edge) m) edges m0) k
     = map_option (\<lambda>arr. arr @ map val (filter (\<lambda>edge. key edge = k) edges)) (map_of m0 k)"
proof (induction edges arbitrary: m0)
  case Nil
  show ?case by (simp add: option.map_ident)
next
  case (Cons e edges)
  show ?case
    by (simp add: Cons map_of_push_if_present option.map_comp o_def cong: option.map_cong)
qed

lemma graph_get_outgoingEdges:
  "graph_get (outgoingEdges nodes edges) v
     = (if v \<in> node_id ` set nodes
        then map edge_target (filter (\<lambda>edge. edge_source edge = v) edges) else [])"
  by (simp add: graph_get_def outgoingEdges_def map_of_fold_push map_of_empty_adjacency)

lemma graph_get_incomingEdges:
  "graph_get (incomingEdges nodes edges) v
     = (if v \<in> node_id ` set nodes
        then map edge_source (filter (\<lambda>edge. edge_target edge = v) edges) else [])"
  by (simp add: graph_get_def incomingEdges_def map_of_fold_push map_of_empty_adjacency)

lemma count_get_update:
  "count_get (AList.update k c m) k' = (if k' = k then c else count_get m k')"
  by (simp add: count_get_def update_conv')

lemma counts_fold_edges:
  "count_get (fold (\<lambda>edge m. AList.update (edge_target edge) (count_get m (edge_target edge) + 1) m)
                edges m0) k
     = count_get m0 k + indegree edges k"
  by (induction edges arbitrary: m0) (simp_all add: count_get_update indegree_def)

lemma keys_set_fold_edges:
  "set (map fst (fold (\<lambda>edge m. AList.update (edge_target edge) (count_get m (edge_target edge) + 1) m)
                edges m0))
     = set (map fst m0) \<union> edge_target ` set edges"
  by (induction edges arbitrary: m0) (auto simp: dom_update)

lemma keys_distinct_fold_edges:
  "distinct (map fst m0) \<Longrightarrow>
   distinct (map fst (fold (\<lambda>edge m. AList.update (edge_target edge) (count_get m (edge_target edge) + 1) m)
                edges m0))"
  by (induction edges arbitrary: m0) (simp_all add: distinct_update)

lemma counts_fold_nodes:
  "count_get (fold (\<lambda>node m. AList.update (node_id node) (0::nat) m) nodes []) k = 0"
  "set (map fst (fold (\<lambda>node m. AList.update (node_id node) (0::nat) m) nodes [])) = node_id ` set nodes"
  "distinct (map fst (fold (\<lambda>node m. AList.update (node_id node) (0::nat) m) nodes []))"
proof -
  have a: "count_get m0 k = 0 \<Longrightarrow>
     count_get (fold (\<lambda>node m. AList.update (node_id node) (0::nat) m) nodes m0) k = 0" for m0
    by (induction nodes arbitrary: m0) (simp_all add: count_get_update)
  have b: "set (map fst (fold (\<lambda>node m. AList.update (node_id node) (0::nat) m) nodes m0))
            = set (map fst m0) \<union> node_id ` set nodes" for m0
    by (induction nodes arbitrary: m0) (auto simp: dom_update)
  have c: "distinct (map fst m0) \<Longrightarrow>
     distinct (map fst (fold (\<lambda>node m. AList.update (node_id node) (0::nat) m) nodes m0))" for m0
    by (induction nodes arbitrary: m0) (simp_all add: distinct_update)
  show "count_get (fold (\<lambda>node m. AList.update (node_id node) (0::nat) m) nodes []) k = 0"
    by (rule a) (simp add: count_get_def)
  show "set (map fst (fold (\<lambda>node m. AList.update (node_id node) (0::nat) m) nodes [])) = node_id ` set nodes"
    using b[of "[]"] by simp
  show "distinct (map fst (fold (\<lambda>node m. AList.update (node_id node) (0::nat) m) nodes []))"
    by (rule c) simp
qed

lemma incomingCounts_props:
  "count_get (incomingCounts nodes edges) k = indegree edges k"
  "set (map fst (incomingCounts nodes edges)) = node_id ` set nodes \<union> edge_target ` set edges"
  "distinct (map fst (incomingCounts nodes edges))"
proof -
  show "count_get (incomingCounts nodes edges) k = indegree edges k"
    unfolding incomingCounts_def counts_fold_edges counts_fold_nodes by simp
  show "set (map fst (incomingCounts nodes edges)) = node_id ` set nodes \<union> edge_target ` set edges"
    unfolding incomingCounts_def keys_set_fold_edges counts_fold_nodes by simp
  show "distinct (map fst (incomingCounts nodes edges))"
    unfolding incomingCounts_def by (intro keys_distinct_fold_edges counts_fold_nodes)
qed

lemma indegree_target: "edge \<in> set edges \<Longrightarrow> 0 < indegree edges (edge_target edge)"
  by (auto simp: indegree_def filter_empty_conv)

lemma roots_keys:
  "distinct (map fst (filter (\<lambda>(k, count). count = 0) (incomingCounts nodes edges)))"
  "set (map fst (filter (\<lambda>(k, count). count = 0) (incomingCounts nodes edges)))
     = {k \<in> node_id ` set nodes. indegree edges k = 0}"
proof -
  let ?m = "incomingCounts nodes edges"
  show "distinct (map fst (filter (\<lambda>(k, count). count = 0) ?m))"
    using incomingCounts_props(3)[of nodes edges] by (simp add: distinct_map_filter)
  have entry: "(k, c) \<in> set ?m \<Longrightarrow> c = indegree edges k" for k c
    using incomingCounts_props(1)[of nodes edges k] incomingCounts_props(3)[of nodes edges]
    by (simp add: count_get_def)
  have key: "k \<in> set (map fst ?m) \<Longrightarrow> (k, indegree edges k) \<in> set ?m" for k
    using entry by fastforce
  show "set (map fst (filter (\<lambda>(k, count). count = 0) ?m))
     = {k \<in> node_id ` set nodes. indegree edges k = 0}"
  proof (intro set_eqI iffI)
    fix k assume "k \<in> set (map fst (filter (\<lambda>(k, count). count = 0) ?m))"
    then obtain c where kc: "(k, c) \<in> set ?m" "c = 0" by auto
    then have z: "indegree edges k = 0" using entry by auto
    have "k \<in> node_id ` set nodes \<union> edge_target ` set edges"
      using kc(1) incomingCounts_props(2)[of nodes edges] by force
    then have "k \<in> node_id ` set nodes" using z indegree_target by fastforce
    then show "k \<in> {k \<in> node_id ` set nodes. indegree edges k = 0}" using z by simp
  next
    fix k assume "k \<in> {k \<in> node_id ` set nodes. indegree edges k = 0}"
    then have k: "k \<in> node_id ` set nodes" "indegree edges k = 0" by auto
    then have "k \<in> set (map fst ?m)" using incomingCounts_props(2)[of nodes edges] by auto
    from key[OF this] k(2) show "k \<in> set (map fst (filter (\<lambda>(k, count). count = 0) ?m))"
      by force
  qed
qed

subsection \<open>The graphs that are sent to the tree layout\<close>

lemma sum_indegree:
  "finite S \<Longrightarrow> (\<Sum>k\<in>S. indegree edges k) = length (filter (\<lambda>edge. edge_target edge \<in> S) edges)"
proof (induction edges)
  case Nil
  show ?case by (simp add: indegree_def)
next
  case (Cons e edges)
  have "(\<Sum>k\<in>S. indegree (e # edges) k)
          = (\<Sum>k\<in>S. (if edge_target e = k then 1 else 0) + indegree edges k)"
    by (intro sum.cong refl) (simp add: indegree_def)
  also have "\<dots> = (\<Sum>k\<in>S. if edge_target e = k then 1 else 0) + (\<Sum>k\<in>S. indegree edges k)"
    by (rule sum.distrib)
  also have "(\<Sum>k\<in>S. if edge_target e = k then 1 else 0) = (if edge_target e \<in> S then 1 else (0::nat))"
    using Cons.prems by (simp add: sum.delta')
  finally show ?case using Cons by simp
qed

lemma tree_choice:
  assumes "getSuggestedLayout nodes edges = Tree"
  shows "length (filter (\<lambda>(k, count). count = 0) (incomingCounts nodes edges)) = 1"
    and "length edges = length nodes - 1"
  using assms by (auto simp: getSuggestedLayout_def Let_def split: if_splits)

lemma tree_shape:
  assumes d: "distinct (map node_id nodes)" and t: "getSuggestedLayout nodes edges = Tree"
  shows "\<forall>edge \<in> set edges. edge_target edge \<in> node_id ` set nodes"
    and "\<forall>k. indegree edges k \<le> 1"
proof -
  let ?I = "node_id ` set nodes"
  let ?Z = "{k \<in> ?I. indegree edges k = 0}"
  have fin: "finite ?I" by simp
  have cI: "card ?I = length nodes" using d by (metis distinct_card list.set_map length_map)
  have "card ?Z = length (map fst (filter (\<lambda>(k, count). count = 0) (incomingCounts nodes edges)))"
    using roots_keys[of nodes edges] by (metis distinct_card)
  then have cZ: "card ?Z = 1" using tree_choice(1)[OF t] by simp
  have ZI: "?Z \<subseteq> ?I" by auto
  have cD: "card (?I - ?Z) = length nodes - 1"
    using cI cZ ZI fin by (simp add: card_Diff_subset)
  have "\<And>i. i \<in> ?I - ?Z \<Longrightarrow> 1 \<le> indegree edges i" by auto
  from sum_bounded_below[of "?I - ?Z" 1 "indegree edges", OF this]
  have low: "card (?I - ?Z) \<le> (\<Sum>k\<in>?I - ?Z. indegree edges k)" by simp
  have "(\<Sum>k\<in>?I - ?Z. indegree edges k) = (\<Sum>k\<in>?I. indegree edges k)"
    by (intro sum.mono_neutral_left) auto
  also have "\<dots> = length (filter (\<lambda>edge. edge_target edge \<in> ?I) edges)"
    by (rule sum_indegree) simp
  finally have eq: "(\<Sum>k\<in>?I - ?Z. indegree edges k)
      = length (filter (\<lambda>edge. edge_target edge \<in> ?I) edges)" .
  have le: "length (filter (\<lambda>edge. edge_target edge \<in> ?I) edges) \<le> length edges" by simp
  have all: "length (filter (\<lambda>edge. edge_target edge \<in> ?I) edges) = length edges"
    using low eq le cD tree_choice(2)[OF t] by simp
  show T1: "\<forall>edge \<in> set edges. edge_target edge \<in> ?I"
  proof (rule ccontr)
    assume "\<not> (\<forall>edge \<in> set edges. edge_target edge \<in> ?I)"
    then obtain e where "e \<in> set edges" "\<not> edge_target e \<in> ?I" by blast
    then have "length (filter (\<lambda>edge. edge_target edge \<in> ?I) edges) < length edges"
      by (rule length_filter_less)
    then show False using all by simp
  qed
  have sumeq: "(\<Sum>k\<in>?I - ?Z. indegree edges k) = card (?I - ?Z)"
    using eq all cD tree_choice(2)[OF t] by simp
  have "(\<Sum>k\<in>?I - ?Z. indegree edges k - 1) = (\<Sum>k\<in>?I - ?Z. indegree edges k) - (\<Sum>k\<in>?I - ?Z. 1)"
    by (rule sum_subtractf_nat) auto
  then have "(\<Sum>k\<in>?I - ?Z. indegree edges k - 1) = 0" using sumeq by simp
  then have one: "\<forall>k \<in> ?I - ?Z. indegree edges k - 1 = 0" by simp
  show "\<forall>k. indegree edges k \<le> 1"
  proof
    fix k
    show "indegree edges k \<le> 1"
    proof (cases "k \<in> ?I")
      case True
      then show ?thesis using one by (cases "k \<in> ?Z") auto
    next
      case False
      then have "filter (\<lambda>edge. edge_target edge = k) edges = []"
        using T1 by (auto simp: filter_empty_conv)
      then show ?thesis by (simp add: indegree_def)
    qed
  qed
qed

subsection \<open>The tree layout returns on them\<close>

lemma chain_parent:
  "chain edges (v # path) \<Longrightarrow> x \<in> set (v # path) \<Longrightarrow> x \<noteq> last (v # path) \<Longrightarrow>
     \<exists>p \<in> set path. \<exists>edge \<in> set edges. edge_source edge = p \<and> edge_target edge = x"
proof (induction path arbitrary: v)
  case Nil
  then show ?case by simp
next
  case (Cons p rest)
  show ?case
  proof (cases "x = v")
    case True
    then show ?thesis using Cons.prems(1) by auto
  next
    case False
    then have "x \<in> set (p # rest)" "x \<noteq> last (p # rest)" using Cons.prems by auto
    from Cons.IH[OF _ this] Cons.prems(1) show ?thesis by auto
  qed
qed

lemma indegree_unique_source:
  assumes "indegree edges c \<le> 1" "e1 \<in> set edges" "e2 \<in> set edges"
    "edge_target e1 = c" "edge_target e2 = c"
  shows "edge_source e1 = edge_source e2"
proof -
  let ?f = "filter (\<lambda>edge. edge_target edge = c) edges"
  have m: "e1 \<in> set ?f" "e2 \<in> set ?f" using assms by auto
  have "length ?f \<le> 1" using assms(1) by (simp add: indegree_def)
  then have "e1 = e2" using m by (cases ?f) auto
  then show ?thesis by simp
qed

lemma child_fresh:
  assumes ch: "chain edges (v # path)" and di: "distinct (v # path)"
    and root: "indegree edges (last (v # path)) = 0"
    and deg: "\<forall>k. indegree edges k \<le> 1"
    and e: "e \<in> set edges" "edge_source e = v" "edge_target e = c"
  shows "c \<notin> set (v # path)"
proof
  assume c: "c \<in> set (v # path)"
  have "0 < indegree edges c" using indegree_target[OF e(1)] e(3) by simp
  then have "c \<noteq> last (v # path)" using root by auto
  from chain_parent[OF ch c this] obtain p e' where
    p: "p \<in> set path" "e' \<in> set edges" "edge_source e' = p" "edge_target e' = c" by blast
  have "edge_source e' = edge_source e"
    using indegree_unique_source[of edges c e' e] deg p e by auto
  then have "p = v" using p e by simp
  then show False using p(1) di by simp
qed

lemma subtree_children_returns:
  "(\<And>c level siblingIndex positions. c \<in> set cs \<Longrightarrow>
      calculateSubtreePositions d outgoing direction c level siblingIndex positions \<noteq> None) \<Longrightarrow>
   subtree_children d outgoing direction cs level totalWidth positions \<noteq> None"
proof (induction cs arbitrary: totalWidth positions)
  case Nil
  show ?case by simp
next
  case (Cons c cs)
  obtain w p where r: "calculateSubtreePositions d outgoing direction c level totalWidth positions = Some (w, p)"
    using Cons.prems[of c level totalWidth positions] by auto
  have "subtree_children d outgoing direction cs level (totalWidth + w) p \<noteq> None"
    by (rule Cons.IH) (simp add: Cons.prems)
  then show ?case using r by simp
qed

lemma calculateSubtreePositions_returns:
  assumes T1: "\<forall>edge \<in> set edges. edge_target edge \<in> node_id ` set nodes"
    and T2: "\<forall>k. indegree edges k \<le> 1"
  shows "chain edges (v # path) \<Longrightarrow> distinct (v # path) \<Longrightarrow> set (v # path) \<subseteq> node_id ` set nodes \<Longrightarrow>
     indegree edges (last (v # path)) = 0 \<Longrightarrow> card (node_id ` set nodes) - length (v # path) < d \<Longrightarrow>
     calculateSubtreePositions d (outgoingEdges nodes edges) direction v level siblingIndex positions
       \<noteq> None"
proof (induction d arbitrary: v path level siblingIndex positions)
  case 0
  then show ?case by simp
next
  case (Suc d)
  let ?I = "node_id ` set nodes"
  let ?out = "outgoingEdges nodes edges"
  have child: "calculateSubtreePositions d ?out direction c l s p \<noteq> None"
    if c: "c \<in> set (graph_get ?out v)" for c l s p
  proof -
    from c obtain e where e: "e \<in> set edges" "edge_source e = v" "edge_target e = c"
      by (auto simp: graph_get_outgoingEdges split: if_splits)
    have fresh: "c \<notin> set (v # path)"
      using child_fresh[OF Suc.prems(1,2,4) T2 e] .
    have cI: "c \<in> ?I" using T1 e by auto
    have ch: "chain edges (c # v # path)" using Suc.prems(1) e by auto
    have di: "distinct (c # v # path)" using Suc.prems(2) fresh by simp
    have su: "set (c # v # path) \<subseteq> ?I" using Suc.prems(3) cI by simp
    have "card (set (c # v # path)) \<le> card ?I" using su by (intro card_mono) auto
    then have len: "length (c # v # path) \<le> card ?I" using di by (simp add: distinct_card)
    have me: "card ?I - length (c # v # path) < d" using Suc.prems(5) len by simp
    have la: "indegree edges (last (c # v # path)) = 0" using Suc.prems(4) by simp
    show ?thesis using Suc.IH[OF ch di su la me] .
  qed
  have kids: "subtree_children d ?out direction (graph_get ?out v) l w p \<noteq> None" for l w p
    by (rule subtree_children_returns) (rule child)
  show ?case
    using kids[of "level + 1" 0 positions]
    by (auto simp: Let_def split: option.splits)
qed

lemma rootNodes_indegree:
  "node \<in> set (rootNodes nodes edges) \<Longrightarrow>
     node \<in> set nodes \<and> indegree edges (node_id node) = 0"
  by (auto simp: rootNodes_def graph_get_incomingEdges indegree_def)

lemma calculateTreeLayout_returns:
  assumes d: "distinct (map node_id nodes)" and t: "getSuggestedLayout nodes edges = Tree"
    and depth: "length nodes \<le> depth"
  shows "calculateTreeLayout depth nodes edges direction \<noteq> None"
proof (cases "length nodes = 0 \<or> length (rootNodes nodes edges) = 0")
  case True
  then show ?thesis by (auto simp: calculateTreeLayout_def)
next
  case False
  let ?r = "node_id (rootNodes nodes edges ! 0)"
  have "rootNodes nodes edges ! 0 \<in> set (rootNodes nodes edges)" using False by simp
  from rootNodes_indegree[OF this] have r: "?r \<in> node_id ` set nodes" "indegree edges ?r = 0"
    by auto
  have "card (node_id ` set nodes) \<le> length nodes" by (metis card_image_le card_length le_trans List.finite_set)
  moreover have "0 < length nodes" using False by simp
  ultimately have "card (node_id ` set nodes) - 1 < depth" using depth by linarith
  then have me: "card (node_id ` set nodes) - length [?r] < depth" by simp
  have "calculateSubtreePositions depth (outgoingEdges nodes edges) direction ?r 0 0 Map.empty \<noteq> None"
    using calculateSubtreePositions_returns[OF tree_shape[OF d t], of ?r "[]" depth direction 0 0 Map.empty]
      r me by simp
  then show ?thesis using False by (auto simp: calculateTreeLayout_def Let_def)
qed

text \<open>
  C9. Whatever the nodes, the edges and the canvas size, a list that \<open>applyBestLayout\<close>
  returns has the length of the input and, index by index, the identity, the label and
  the selection flag of the input node: only positions change. And it does return a list
  whenever the node identities are pairwise distinct, as the data model requires, and the
  call stack is at least as deep as the node list is long. (The input list is a value of
  the model and cannot change; the source builds every node it returns with a spread and
  copies the array before it resolves overlaps.)
\<close>

theorem applyBestLayout_positions_only:
  "(applyBestLayout depth dagre rnd nodes edges canvasSize = Some out \<longrightarrow>
      map node_frame out = map node_frame nodes)
   \<and> (distinct (map node_id nodes) \<and> length nodes \<le> depth \<longrightarrow>
        applyBestLayout depth dagre rnd nodes edges canvasSize \<noteq> None)"
proof (intro conjI impI)
  assume "applyBestLayout depth dagre rnd nodes edges canvasSize = Some out"
  then show "map node_frame out = map node_frame nodes" by (rule applyBestLayout_frame)
next
  assume a: "distinct (map node_id nodes) \<and> length nodes \<le> depth"
  show "applyBestLayout depth dagre rnd nodes edges canvasSize \<noteq> None"
  proof (cases "getSuggestedLayout nodes edges = Tree")
    case True
    then show ?thesis
      using calculateTreeLayout_returns[of nodes edges depth Vertical] a
      by (simp add: applyBestLayout_def Let_def)
  next
    case False
    then show ?thesis
      by (cases "getSuggestedLayout nodes edges") (simp_all add: applyBestLayout_def Let_def)
  qed
qed

theorem applyBestLayout_positions_only_witness:
  "getSuggestedLayout
     [\<lparr>node_id = ''A'', node_label = ''a'', node_position = \<lparr>pos_x = 0, pos_y = 0\<rparr>, node_selected = False\<rparr>,
      \<lparr>node_id = ''B'', node_label = ''b'', node_position = \<lparr>pos_x = 0, pos_y = 0\<rparr>, node_selected = True\<rparr>,
      \<lparr>node_id = ''C'', node_label = ''c'', node_position = \<lparr>pos_x = 0, pos_y = 0\<rparr>, node_selected = False\<rparr>,
      \<lparr>node_id = ''D'', node_label = ''d'', node_position = \<lparr>pos_x = 0, pos_y = 0\<rparr>, node_selected = False\<rparr>,
      \<lparr>node_id = ''E'', node_label = ''e'', node_position = \<lparr>pos_x = 0, pos_y = 0\<rparr>, node_selected = False\<rparr>]
     [\<lparr>edge_id = ''edge-1'', edge_source = ''A'', edge_target = ''B'', edge_selected = False\<rparr>,
      \<lparr>edge_id = ''edge-2'', edge_source = ''A'', edge_target = ''C'', edge_selected = False\<rparr>,
      \<lparr>edge_id = ''edge-3'', edge_source = ''B'', edge_target = ''D'', edge_selected = False\<rparr>,
      \<lparr>edge_id = ''edge-4'', edge_source = ''B'', edge_target = ''E'', edge_selected = False\<rparr>] = Tree
   \<and> applyBestLayout 5 (\<lambda>nodes edges layoutOptions. None) (\<lambda>k. 0)
     [\<lparr>node_id = ''A'', node_label = ''a'', node_position = \<lparr>pos_x = 0, pos_y = 0\<rparr>, node_selected = False\<rparr>,
      \<lparr>node_id = ''B'', node_label = ''b'', node_position = \<lparr>pos_x = 0, pos_y = 0\<rparr>, node_selected = True\<rparr>,
      \<lparr>node_id = ''C'', node_label = ''c'', node_position = \<lparr>pos_x = 0, pos_y = 0\<rparr>, node_selected = False\<rparr>,
      \<lparr>node_id = ''D'', node_label = ''d'', node_position = \<lparr>pos_x = 0, pos_y = 0\<rparr>, node_selected = False\<rparr>,
      \<lparr>node_id = ''E'', node_label = ''e'', node_position = \<lparr>pos_x = 0, pos_y = 0\<rparr>, node_selected = False\<rparr>]
     [\<lparr>edge_id = ''edge-1'', edge_source = ''A'', edge_target = ''B'', edge_selected = False\<rparr>,
      \<lparr>edge_id = ''edge-2'', edge_source = ''A'', edge_target = ''C'', edge_selected = False\<rparr>,
      \<lparr>edge_id = ''edge-3'', edge_source = ''B'', edge_target = ''D'', edge_selected = False\<rparr>,
      \<lparr>edge_id = ''edge-4'', edge_source = ''B'', edge_target = ''E'', edge_selected = False\<rparr>] None \<noteq> None
   \<and> map node_frame (the (applyBestLayout 5 (\<lambda>nodes edges layoutOptions. None) (\<lambda>k. 0)
     [\<lparr>node_id = ''A'', node_label = ''a'', node_position = \<lparr>pos_x = 0, pos_y = 0\<rparr>, node_selected = False\<rparr>,
      \<lparr>node_id = ''B'', node_label = ''b'', node_position = \<lparr>pos_x = 0, pos_y = 0\<rparr>, node_selected = True\<rparr>,
      \<lparr>node_id = ''C'', node_label = ''c'', node_position = \<lparr>pos_x = 0, pos_y = 0\<rparr>, node_selected = False\<rparr>,
      \<lparr>node_id = ''D'', node_label = ''d'', node_position = \<lparr>pos_x = 0, pos_y = 0\<rparr>, node_selected = False\<rparr>,
      \<lparr>node_id = ''E'', node_label = ''e'', node_position = \<lparr>pos_x = 0, pos_y = 0\<rparr>, node_selected = False\<rparr>]
     [\<lparr>edge_id = ''edge-1'', edge_source = ''A'', edge_target = ''B'', edge_selected = False\<rparr>,
      \<lparr>edge_id = ''edge-2'', edge_source = ''A'', edge_target = ''C'', edge_selected = False\<rparr>,
      \<lparr>edge_id = ''edge-3'', edge_source = ''B'', edge_target = ''D'', edge_selected = False\<rparr>,
      \<lparr>edge_id = ''edge-4'', edge_source = ''B'', edge_target = ''E'', edge_selected = False\<rparr>] None))
     = [(''A'', ''a'', False), (''B'', ''b'', True), (''C'', ''c'', False), (''D'', ''d'', False),
        (''E'', ''e'', False)]"
  (is "getSuggestedLayout ?ns ?es = Tree \<and> ?run \<noteq> None \<and> _")
proof -
  have t: "getSuggestedLayout ?ns ?es = Tree"
    by (simp add: getSuggestedLayout_def incomingCounts_def count_get_def)
  have d: "distinct (map node_id ?ns) \<and> length ?ns \<le> 5" by simp
  have r: "?run \<noteq> None"
    using applyBestLayout_positions_only[of 5 "\<lambda>nodes edges layoutOptions. None" "\<lambda>k. 0" ?ns ?es None] d by blast
  then obtain out where o: "?run = Some out" by blast
  have "map node_frame out = map node_frame ?ns"
    using applyBestLayout_positions_only[of 5 "\<lambda>nodes edges layoutOptions. None" "\<lambda>k. 0" ?ns ?es None out] o by blast
  then show ?thesis using t r o by (simp add: node_frame_def)
qed

text \<open>
  Why the identities must be distinct for the second half: with a repeated identity the
  tree strategy can be chosen for a graph whose root reaches a cycle, and the recursion
  of the tree layout uses up any call stack.
\<close>

lemma cycle_never_returns:
  "calculateSubtreePositions d
     [(''A'', [''B'']), (''B'', [''C'']), (''C'', [''D'']), (''D'', [''B''])] direction v level sib positions = None"
  if "v \<in> {''B'', ''C'', ''D''}"
  using that
proof (induction d arbitrary: v level sib positions)
  case 0
  show ?case by simp
next
  case (Suc d)
  have "calculateSubtreePositions d
     [(''A'', [''B'']), (''B'', [''C'']), (''C'', [''D'']), (''D'', [''B''])] direction c l s p = None"
    if "c \<in> {''B'', ''C'', ''D''}" for c l s p
    using Suc.IH[OF that] .
  then show ?case using Suc.prems by (auto simp: graph_get_def Let_def)
qed

lemma duplicate_ids_overflow:
  "applyBestLayout depth dagre rnd
     [\<lparr>node_id = ''A'', node_label = ''a'', node_position = pa, node_selected = False\<rparr>,
      \<lparr>node_id = ''A'', node_label = ''a2'', node_position = pa2, node_selected = False\<rparr>,
      \<lparr>node_id = ''B'', node_label = ''b'', node_position = pb, node_selected = False\<rparr>,
      \<lparr>node_id = ''C'', node_label = ''c'', node_position = pc, node_selected = False\<rparr>,
      \<lparr>node_id = ''D'', node_label = ''d'', node_position = pd, node_selected = False\<rparr>]
     [\<lparr>edge_id = ''edge-1'', edge_source = ''A'', edge_target = ''B'', edge_selected = False\<rparr>,
      \<lparr>edge_id = ''edge-2'', edge_source = ''B'', edge_target = ''C'', edge_selected = False\<rparr>,
      \<lparr>edge_id = ''edge-3'', edge_source = ''C'', edge_target = ''D'', edge_selected = False\<rparr>,
      \<lparr>edge_id = ''edge-4'', edge_source = ''D'', edge_target = ''B'', edge_selected = False\<rparr>]
     canvasSize = None"
  (is "applyBestLayout depth dagre rnd ?ns ?es canvasSize = None")
proof -
  have t: "getSuggestedLayout ?ns ?es = Tree"
    by (simp add: getSuggestedLayout_def incomingCounts_def count_get_def)
  have out: "outgoingEdges ?ns ?es = [(''A'', [''B'']), (''B'', [''C'']), (''C'', [''D'']), (''D'', [''B''])]"
    by (simp add: outgoingEdges_def empty_adjacency_def push_if_present_def)
  have root: "rootNodes ?ns ?es =
     [\<lparr>node_id = ''A'', node_label = ''a'', node_position = pa, node_selected = False\<rparr>,
      \<lparr>node_id = ''A'', node_label = ''a2'', node_position = pa2, node_selected = False\<rparr>]"
    by (simp add: rootNodes_def incomingEdges_def empty_adjacency_def push_if_present_def graph_get_def)
  have "calculateSubtreePositions depth (outgoingEdges ?ns ?es) Vertical ''A'' 0 0 Map.empty = None"
  proof (cases depth)
    case 0
    then show ?thesis by simp
  next
    case (Suc d)
    show ?thesis unfolding out Suc
      using cycle_never_returns[of "''B''" d Vertical] by (simp add: graph_get_def)
  qed
  then have "calculateTreeLayout depth ?ns ?es Vertical = None"
    by (simp add: calculateTreeLayout_def root)
  then show ?thesis by (simp add: applyBestLayout_def t)
qed

end
